theory Spec2Isabelle
  imports Complex_Main
begin

section \<open>Plate crawler: a model of gh-plate-sync.cjs, gh-plate-sync-ocr.cjs and trigger_swap.cjs\<close>

text \<open>
  The worker drives a browser through a government portal, solves a CAPTCHA with an
  external recognition service, walks the paginated result listing and stages the rows
  in a database table that a later step swaps into production.

  The browser, the recognition service and the database are outside the program. Their
  answers are inputs of the model: an \<open>env\<close> record of oracle functions, each indexed by
  the number of external calls made so far (\<open>tick\<close>), so that any sequence of answers
  can be represented. Database tables are lists of rows held in the \<open>world\<close> record.
  Sleeps only pass time and are not part of the step model; timestamps
  (\<open>updated_at\<close>, \<open>last_run_at\<close>, start and end times) are left out.
\<close>

subsection \<open>RateLimiter (gh-plate-sync.cjs, lines 48-72)\<close>

record RateLimiter =
  limit :: int
  interval :: int
  tokens :: int
  lastRefill :: int

text \<open>The constructor; \<open>now\<close> is the value of \<open>Date.now()\<close> when it runs.\<close>

definition new_RateLimiter :: "int \<Rightarrow> int \<Rightarrow> int \<Rightarrow> RateLimiter" where
  "new_RateLimiter capacity period now =
     \<lparr>limit = capacity, interval = period, tokens = capacity, lastRefill = now\<rparr>"

text \<open>
  \<open>setTimeout(r, d)\<close> of Node.js: a delay below 1 or above \<open>2^31 - 1\<close> is replaced by 1.
\<close>

definition TIMEOUT_MAX :: int where
  "TIMEOUT_MAX = 2147483647"

definition timer_delay :: "int \<Rightarrow> int" where
  "timer_delay d = (if d < 1 \<or> TIMEOUT_MAX < d then 1 else d)"

text \<open>
  \<open>wait()\<close>. \<open>now\<close> is \<open>Date.now()\<close> on entry; \<open>late\<close> is how many milliseconds after its
  delay the timer fires (a timer is assumed never to fire early). The result is the
  limiter after the call, the time slept if the call blocked, and the value of the clock
  when the call returns (the moment the acquisition is granted).
\<close>

definition wait :: "RateLimiter \<Rightarrow> int \<Rightarrow> nat \<Rightarrow> RateLimiter \<times> int option \<times> int" where
  "wait rl now late =
     (let rl1 = (if now - lastRefill rl > interval rl
                 then rl\<lparr>tokens := limit rl, lastRefill := now\<rparr> else rl)
      in if tokens rl1 \<le> 0
         then (let waitTime = interval rl1 - (now - lastRefill rl1) + 1000;
                   woke = now + timer_delay waitTime + int late;
                   rl2 = rl1\<lparr>tokens := limit rl1, lastRefill := woke\<rparr>
               in (rl2\<lparr>tokens := tokens rl2 - 1\<rparr>, Some waitTime, woke))
         else (rl1\<lparr>tokens := tokens rl1 - 1\<rparr>, None, now))"

text \<open>
  A sequential caller: each entry \<open>(gap, late)\<close> of the schedule is one call of \<open>wait\<close>,
  made \<open>gap\<close> milliseconds after the previous call returned. The state is the limiter,
  the clock and the grant times so far, oldest first.
\<close>

fun run_waits :: "RateLimiter \<times> int \<times> int list \<Rightarrow> (nat \<times> nat) list
    \<Rightarrow> RateLimiter \<times> int \<times> int list" where
  "run_waits s [] = s"
| "run_waits (rl, clock, grants) ((gap, late) # cs) =
     (case wait rl (clock + int gap) late of
        (rl', blocked, t) \<Rightarrow> run_waits (rl', t, grants @ [t]) cs)"

text \<open>The grants that fall into the window of length \<open>interval\<close> that starts at the last refill.\<close>

definition grants_in_window :: "RateLimiter \<Rightarrow> int list \<Rightarrow> int list" where
  "grants_in_window rl grants =
     filter (\<lambda>t. lastRefill rl \<le> t \<and> t \<le> lastRefill rl + interval rl) grants"

text \<open>\<open>const geminiLimiter = new RateLimiter(25, 60000)\<close>\<close>

definition geminiLimiter :: "int \<Rightarrow> RateLimiter" where
  "geminiLimiter now = new_RateLimiter 25 60000 now"

subsection \<open>adaptiveSleep (gh-plate-sync.cjs, lines 209-224)\<close>

text \<open>
  The multipliers 0.75, 1.5 and 1.0 are dyadic, so the products with the integer bounds
  are exact in double precision and the model computes them in the rationals.
  The result is the pair \<open>(finalMin, finalMax)\<close> handed to \<open>randomSleep\<close>.
\<close>

definition adaptiveSleep :: "int \<Rightarrow> int \<Rightarrow> int \<Rightarrow> int \<times> int" where
  "adaptiveSleep mn mx latency =
     (let multiplier = (if latency < 1500 then (3/4 :: rat)
                        else if latency > 4000 then 3/2 else 1);
          finalMin = \<lfloor>of_int mn * multiplier\<rfloor>;
          finalMax = \<lfloor>of_int mx * multiplier\<rfloor>
      in (finalMin, finalMax))"

text \<open>The base bounds of every call of \<open>adaptiveSleep\<close> in \<open>processStation\<close> (lines 400-433).\<close>

definition adaptive_call_sites :: "(int \<times> int) list" where
  "adaptive_call_sites =
     [(800, 1500), (800, 1200), (800, 1200), (600, 1000), (400, 800), (800, 1500), (600, 1000)]"

subsection \<open>CAPTCHA answers (solveCaptcha, lines 238-266; OCR variant, lines 91-135)\<close>

text \<open>
  Strings are lists of 8-bit characters (Latin-1 code units).
  \<open>toUpperCase\<close> maps a-z to A-Z and the sharp s (code 223) to \<open>SS\<close>; every other
  character of this range stays outside \<open>[A-Z0-9]\<close>.
\<close>

definition is_space :: "char \<Rightarrow> bool" where
  "is_space c = (of_char c \<in> {9, 10, 11, 12, 13, 32, 160 :: nat})"

definition trim :: "string \<Rightarrow> string" where
  "trim s = rev (dropWhile is_space (rev (dropWhile is_space s)))"

definition toUpperCase_char :: "char \<Rightarrow> string" where
  "toUpperCase_char c =
     (let n = (of_char c :: nat)
      in if 97 \<le> n \<and> n \<le> 122 then [char_of (n - 32)]
         else if n = 223 then ''SS''
         else [c])"

definition toUpperCase :: "string \<Rightarrow> string" where
  "toUpperCase s = concat (map toUpperCase_char s)"

definition is_AZ09 :: "char \<Rightarrow> bool" where
  "is_AZ09 c = (let n = (of_char c :: nat) in (65 \<le> n \<and> n \<le> 90) \<or> (48 \<le> n \<and> n \<le> 57))"

text \<open>\<open>response.text().trim().toUpperCase().replace(/[^A-Z0-9]/g, '')\<close>\<close>

definition clean_answer :: "string \<Rightarrow> string" where
  "clean_answer t = filter is_AZ09 (toUpperCase (trim t))"

text \<open>
  The check of the main worker (line 472): \<open>rawCode && rawCode.length === 4\<close>;
  \<open>null\<close> and the empty string are falsy.
\<close>

definition valid_code :: "string option \<Rightarrow> bool" where
  "valid_code rawCode = (case rawCode of None \<Rightarrow> False | Some c \<Rightarrow> c \<noteq> [] \<and> length c = 4)"

text \<open>
  The check of the OCR variant (gh-plate-sync-ocr.cjs, line 207) skips the answer when
  \<open>!code || code.length < 4\<close>.
\<close>

definition ocr_skips :: "string option \<Rightarrow> bool" where
  "ocr_skips code = (case code of None \<Rightarrow> True | Some c \<Rightarrow> c = [] \<or> length c < 4)"

subsection \<open>Scraped plates, deduplication and staging rows (lines 548-598)\<close>

text \<open>
  One \<open>.number_cell\<close> as \<open>page.evaluate\<close> returns it: \<open>no\<close> and \<open>price\<close> are \<open>undefined\<close>
  (\<open>None\<close>) when the cell has no \<open>.number\<close> or \<open>.price\<close> element.
\<close>

record plate =
  no :: "string option"
  price_text :: "string option"

definition truthy :: "string option \<Rightarrow> bool" where
  "truthy v = (case v of None \<Rightarrow> False | Some s \<Rightarrow> s \<noteq> [])"

text \<open>\<open>.filter(x => x.no)\<close>\<close>

definition scraped :: "plate list \<Rightarrow> plate list" where
  "scraped cells = filter (\<lambda>x. truthy (no x)) cells"

text \<open>
  \<open>Map.prototype.set\<close>: an existing key keeps its place and gets the new value, a new key
  goes to the end. \<open>Array.from(map.values())\<close> reads the values in that order.
\<close>

fun Map_set :: "'k \<Rightarrow> 'v \<Rightarrow> ('k \<times> 'v) list \<Rightarrow> ('k \<times> 'v) list" where
  "Map_set k v [] = [(k, v)]"
| "Map_set k v ((k', v') # m) = (if k' = k then (k, v) # m else (k', v') # Map_set k v m)"

definition uniquePlatesMap :: "plate list \<Rightarrow> (string option \<times> plate) list" where
  "uniquePlatesMap collectedPlates =
     foldl (\<lambda>m p. if truthy (no p) then Map_set (no p) p m else m) [] collectedPlates"

definition finalPlates :: "plate list \<Rightarrow> plate list" where
  "finalPlates collectedPlates = map snd (uniquePlatesMap collectedPlates)"

text \<open>
  A JavaScript number that is not \<open>NaN\<close>, as far as the program meets them: a double
  whose value is an integer, or an infinity. The two zeros are not told apart (the
  program reads a parsed number only through \<open>|| 0\<close>, which maps both to \<open>0\<close>).
\<close>

datatype number = Num int | Infinity | Minus_Infinity

text \<open>The number of binary digits of a positive integer.\<close>

function bit_length :: "int \<Rightarrow> nat" where
  "bit_length n = (if n \<le> 0 then 0 else Suc (bit_length (n div 2)))"
  by pat_completeness auto
termination
  by (relation "measure nat") auto

declare bit_length.simps [simp del]

text \<open>
  The Number value of a mathematical integer: the nearest double, a tie going to the
  even significand of 53 bits, and an infinity when the rounded value reaches \<open>2^1024\<close>.
  This is what Node.js computes for the digits \<open>parseInt\<close> reads, in radix 10 and 16
  (the language would also allow it to ignore decimal digits after the twentieth).
\<close>

definition to_Number :: "int \<Rightarrow> number" where
  "to_Number n =
     (let m = \<bar>n\<bar>;
          sh = bit_length m - 53;
          q = m div 2 ^ sh;
          r = m mod 2 ^ sh;
          q' = (if 2 * r > 2 ^ sh \<or> (2 * r = 2 ^ sh \<and> odd q) then q + 1 else q);
          v = q' * 2 ^ sh
      in if v \<ge> 2 ^ 1024 then (if n < 0 then Minus_Infinity else Infinity)
         else Num (sgn n * v))"

text \<open>
  \<open>parseInt(s)\<close> with no radix: leading white space, an optional sign, then hexadecimal
  digits after \<open>0x\<close> or decimal digits; \<open>None\<close> is \<open>NaN\<close>. The result is the Number value
  of the integer the digits denote.
\<close>

definition digit_val :: "char \<Rightarrow> nat option" where
  "digit_val c =
     (let n = (of_char c :: nat)
      in if 48 \<le> n \<and> n \<le> 57 then Some (n - 48)
         else if 97 \<le> n \<and> n \<le> 102 then Some (n - 87)
         else if 65 \<le> n \<and> n \<le> 70 then Some (n - 55)
         else None)"

definition is_digit :: "nat \<Rightarrow> char \<Rightarrow> bool" where
  "is_digit radix c = (case digit_val c of None \<Rightarrow> False | Some d \<Rightarrow> d < radix)"

definition digits_value :: "nat \<Rightarrow> string \<Rightarrow> int" where
  "digits_value radix ds = foldl (\<lambda>acc c. acc * int radix + int (case digit_val c of None \<Rightarrow> 0 | Some d \<Rightarrow> d)) 0 ds"

definition parseInt :: "string \<Rightarrow> number option" where
  "parseInt s =
     (let s1 = dropWhile is_space s;
          sign = (if take 1 s1 = ''-'' then - 1 else (1 :: int));
          s2 = (if take 1 s1 = ''-'' \<or> take 1 s1 = ''+'' then drop 1 s1 else s1);
          hex = (take 2 s2 = ''0x'' \<or> take 2 s2 = ''0X'');
          radix = (if hex then 16 else 10);
          ds = takeWhile (is_digit radix) (if hex then drop 2 s2 else s2)
      in if ds = [] then None else Some (to_Number (sign * digits_value radix ds)))"

text \<open>\<open>parseInt(p.price) || 0\<close>: \<open>NaN\<close> and 0 give 0; \<open>parseInt(undefined)\<close> is \<open>NaN\<close>.\<close>

definition price_of :: "plate \<Rightarrow> number" where
  "price_of p =
     (case price_text p of None \<Rightarrow> Num 0
      | Some s \<Rightarrow> (case parseInt s of None \<Rightarrow> Num 0 | Some n \<Rightarrow> n))"

record station =
  st_id :: string
  st_name :: string
  st_shard :: "string option"
  no_rental :: bool

text \<open>A row as the program hands it to the insert (without \<open>updated_at\<close>).\<close>

record staging_row =
  station_id :: string
  station_name :: string
  region_id :: string
  plate_type :: string
  window_id :: string
  plate_no :: string
  price :: number
  row_status :: string

definition to_row :: "string \<Rightarrow> station \<Rightarrow> string \<Rightarrow> plate \<Rightarrow> staging_row" where
  "to_row deptId st pType p =
     \<lparr>station_id = st_id st, station_name = st_name st, region_id = deptId,
      plate_type = pType, window_id = ''01'', plate_no = (case no p of None \<Rightarrow> [] | Some n \<Rightarrow> n),
      price = price_of p, row_status = ''AVAILABLE''\<rparr>"

definition rows_to_insert :: "string \<Rightarrow> station \<Rightarrow> string \<Rightarrow> plate list \<Rightarrow> staging_row list" where
  "rows_to_insert deptId st pType collectedPlates =
     map (to_row deptId st pType) (finalPlates collectedPlates)"

text \<open>The invariant of a run of the limiter with capacity \<open>L\<close> and period \<open>I\<close>: the tokens spent since
  the last refill are the grants made since then, and no grant is later than the clock.\<close>

definition limiter_inv :: "int \<Rightarrow> int \<Rightarrow> RateLimiter \<times> int \<times> int list \<Rightarrow> bool" where
  "limiter_inv L I s =
     (case s of (rl, clock, grants) \<Rightarrow>
        limit rl = L \<and> interval rl = I \<and> 0 \<le> tokens rl \<and> tokens rl \<le> L \<and>
        lastRefill rl \<le> clock \<and> clock - lastRefill rl \<le> I \<and>
        list_all (\<lambda>t. t \<le> clock) grants \<and>
        int (length (filter (\<lambda>t. lastRefill rl \<le> t) grants)) = L - tokens rl)"

text \<open>
  The invariant of the deduplication loop: the map holds each truthy plate number of the
  plates read so far once, with the last plate read under that number.
\<close>

definition dedup_inv :: "plate list \<Rightarrow> (string option \<times> plate) list \<Rightarrow> bool" where
  "dedup_inv cs m =
     (distinct (map fst m) \<and>
      fst ` set m = {k. truthy k \<and> k \<in> no ` set cs} \<and>
      (\<forall>kv \<in> set m. no (snd kv) = fst kv \<and>
                     last (filter (\<lambda>q. no q = fst kv) cs) = snd kv))"

text \<open>The rows of the specification's example, collected at station 20 of department 2.\<close>

definition example_station :: station where
  "example_station = \<lparr>st_id = ''20'', st_name = ''Taipei'', st_shard = None, no_rental = True\<rparr>"

definition example_collected :: "plate list" where
  "example_collected =
     [\<lparr>no = Some ''A'', price_text = Some ''10''\<rparr>,
      \<lparr>no = Some ''B'', price_text = Some ''20''\<rparr>,
      \<lparr>no = Some ''A'', price_text = Some ''15''\<rparr>]"

subsection \<open>The outside world\<close>

text \<open>A thrown JavaScript value: the error class and its \<open>message\<close>.\<close>

datatype exn = Error string | ReferenceError string | TypeError string

fun message :: "exn \<Rightarrow> string" where
  "message (Error m) = m"
| "message (ReferenceError m) = m"
| "message (TypeError m) = m"

text \<open>
  What the program does to the outside, in the order it does it: the log line that opens
  a station, a navigation to the query page, a click on the CAPTCHA refresh link, a call
  of \<open>solveCaptcha\<close> with the value it returned, a call of \<open>doSubmit\<close> made after
  \<open>humanType\<close> has typed a code into the form, a click on the next-page control, an
  insert into the staging table with its rows and the \<open>error\<close> it returned, and a call of
  the \<open>swap_plates_data\<close> procedure.
\<close>

datatype event =
    Station_begin string string
  | Goto
  | Refresh
  | Solve "string option"
  | Submit string
  | Click_next
  | Insert "staging_row list" "string option"
  | Swap

text \<open>class \<open>SyncStats\<close> (lines 134-181), without the run id and the times.\<close>

record SyncStats =
  status :: string
  totalPlates :: nat
  stationsSuccess :: nat
  stationsFailed :: nat
  captchaAttempts :: nat
  captchaSuccess :: nat
  errors :: "string list"

definition new_SyncStats :: SyncStats where
  "new_SyncStats =
     \<lparr>status = ''RUNNING'', totalPlates = 0, stationsSuccess = 0, stationsFailed = 0,
      captchaAttempts = 0, captchaSuccess = 0, errors = []\<rparr>"

text \<open>
  A result page as the program observes it: whether the body text holds one of the
  three no-data phrases, the number matched by a total-count pattern, the two numbers
  matched by a page-number pattern, whether \<open>input[name="status_next_page"]\<close> and
  \<open>#next\<close> exist, and the \<open>.number_cell\<close> elements.
\<close>

record page =
  no_data_text :: bool
  count_text :: "nat option"
  pages_text :: "(nat \<times> nat) option"
  status_next_page :: bool
  next_id :: bool
  cells :: "plate list"

text \<open>
  The dependent selections of the form (lines 402-433), none of them guarded: one of
  them throws, or the plate type is not offered, or it is selected.
\<close>

datatype form_outcome = Form_fault string | Type_absent | Type_selected

text \<open>
  Typing and submitting a code (lines 493-523): \<open>humanType\<close> throws, so that \<open>doSubmit\<close>
  is not called; or \<open>humanType\<close> returns and the call of \<open>doSubmit\<close> throws; or both
  return, and then \<open>alert\<close> is the message of the dialog, if one opened, and \<open>rendered\<close>
  says that \<open>waitForFunction\<close> saw a result before its timeout.
\<close>

datatype submit_outcome = Type_fault string | Submit_fault string | Submitted "string option" bool

text \<open>
  The answers of the outside. \<open>db_error\<close> is the \<open>error\<close> field of the database call made
  at a tick, \<open>goto_error\<close> the message \<open>page.goto\<close> throws, \<open>solver\<close> the text of the
  recognition service (\<open>None\<close> when anything inside the \<open>try\<close> of \<open>solveCaptcha\<close> throws),
  \<open>click_error\<close> the message an unguarded click throws, and \<open>listing q k\<close> the result
  page shown after \<open>k\<close> clicks on the next-page control of the listing opened at tick \<open>q\<close>
  (\<open>Inl\<close> when a page operation throws there).
\<close>

record env =
  db_error :: "nat \<Rightarrow> string option"
  goto_error :: "nat \<Rightarrow> string option"
  form :: "nat \<Rightarrow> form_outcome"
  solver :: "nat \<Rightarrow> string option"
  click_error :: "nat \<Rightarrow> string option"
  submission :: "nat \<Rightarrow> submit_outcome"
  listing :: "nat \<Rightarrow> nat \<Rightarrow> string + page"

text \<open>
  The state: the tick, the tables \<open>available_plates_staging\<close>, \<open>available_plates\<close>
  (production), \<open>sync_metadata\<close> (key to status and message) and \<open>sync_logs\<close> (the row
  of this run), the global \<open>stats\<close> object, and the events so far, oldest first.
\<close>

record world =
  tick :: nat
  staging :: "staging_row list"
  production :: "staging_row list"
  sync_metadata :: "(string \<times> string \<times> string option) list"
  sync_logs :: "SyncStats option"
  stats :: SyncStats
  events :: "event list"

definition emit :: "event \<Rightarrow> world \<Rightarrow> world" where
  "emit e w = w\<lparr>events := events w @ [e]\<rparr>"

definition next_tick :: "world \<Rightarrow> world" where
  "next_tick w = w\<lparr>tick := tick w + 1\<rparr>"

text \<open>\<open>addError(station, error)\<close>: the message is \<open>station: error\<close>.\<close>

definition addError :: "string \<Rightarrow> string \<Rightarrow> world \<Rightarrow> world" where
  "addError st_nm err w =
     w\<lparr>stats := (stats w)\<lparr>errors := errors (stats w) @ [st_nm @ '': '' @ err]\<rparr>\<rparr>"

subsection \<open>The CAPTCHA loops of the main worker (lines 238-266 and 435-529)\<close>

text \<open>
  \<open>solveCaptcha\<close>. The wait on the rate limiter only passes time. Everything after the
  counter is inside \<open>try\<close>, so the function returns \<open>null\<close> instead of throwing.
\<close>

definition solveCaptcha :: "env \<Rightarrow> world \<Rightarrow> string option \<times> world" where
  "solveCaptcha env w =
     (let w1 = next_tick (w\<lparr>stats := (stats w)\<lparr>captchaAttempts := captchaAttempts (stats w) + 1\<rparr>\<rparr>)
      in case solver env (tick w) of
           None \<Rightarrow> (None, emit (Solve None) w1)
         | Some response \<Rightarrow>
             (let text = clean_answer response;
                  w2 = (if text \<noteq> [] \<and> length text = 4
                        then w1\<lparr>stats := (stats w1)\<lparr>captchaSuccess := captchaSuccess (stats w1) + 1\<rparr>\<rparr>
                        else w1)
              in (Some text, emit (Solve (Some text)) w2)))"

text \<open>
  The inner loop (lines 449-485), entered with \<open>code = null\<close>; \<open>attempts\<close> is the number
  of the outer attempt. The refresh click is guarded. Since \<open>solveCaptcha\<close> does not
  throw, the \<open>catch\<close> of line 477 is never entered. The result is \<open>code\<close> and the final value of
  the local counter \<open>captchaAttempts\<close> (here \<open>cAttempts\<close>, the name being taken by the statistics).
\<close>

function solve_loop :: "env \<Rightarrow> nat \<Rightarrow> nat \<Rightarrow> world \<Rightarrow> string option \<times> nat \<times> world" where
  "solve_loop env attempts cAttempts w =
     (if cAttempts < 5 then
        (let cAttempts' = cAttempts + 1;
             w1 = (if cAttempts' > 1 \<or> attempts > 1 then emit Refresh w else w)
         in case solveCaptcha env w1 of
              (rawCode, w2) \<Rightarrow>
                if valid_code rawCode then (rawCode, cAttempts', w2)
                else solve_loop env attempts cAttempts' w2)
      else (None, cAttempts, w))"
  by pat_completeness auto
termination
  by (relation "measure (\<lambda>(env, attempts, cAttempts, w). 5 - cAttempts)") auto

declare solve_loop.simps [simp del]

definition maxQueryAttempts :: nat where
  "maxQueryAttempts = 10"

text \<open>
  The outer loop (lines 443-529), entered with \<open>success = false\<close>. The result is
  \<open>success\<close>, or the exception that leaves \<open>processStation\<close>, with the final values of
  \<open>attempts\<close> and \<open>retries\<close>.
\<close>

function query_loop :: "env \<Rightarrow> nat \<Rightarrow> nat \<Rightarrow> world \<Rightarrow> (exn + bool) \<times> nat \<times> nat \<times> world" where
  "query_loop env attempts retries w =
     (if attempts < maxQueryAttempts then
        (let attempts' = attempts + 1;
             retries' = (if attempts' > 1 then retries + 1 else retries)
         in case solve_loop env attempts' 0 w of
              (None, cAttempts, w1) \<Rightarrow> query_loop env attempts' retries' w1
            | (Some code, cAttempts, w1) \<Rightarrow>
                (let w2 = emit (Submit code) (next_tick w1)
                 in case submission env (tick w1) of
                      Type_fault m \<Rightarrow> (Inl (Error m), attempts', retries', next_tick w1)
                    | Submit_fault m \<Rightarrow> (Inl (Error m), attempts', retries', w2)
                    | Submitted alertMsg rendered \<Rightarrow>
                        if rendered \<and> \<not> truthy alertMsg then (Inr True, attempts', retries', w2)
                        else query_loop env attempts' retries' w2))
      else (Inr False, attempts, retries, w))"
  by pat_completeness auto
termination
  by (relation "measure (\<lambda>(env, attempts, retries, w). maxQueryAttempts - attempts)") auto

declare query_loop.simps [simp del]

subsection \<open>The CAPTCHA loop of the OCR variant (gh-plate-sync-ocr.cjs, lines 188-240)\<close>

text \<open>The OCR \<open>solveCaptcha\<close> keeps no statistics.\<close>

definition ocr_solveCaptcha :: "env \<Rightarrow> world \<Rightarrow> string option \<times> world" where
  "ocr_solveCaptcha env w =
     (let code = map_option clean_answer (solver env (tick w))
      in (code, emit (Solve code) (next_tick w)))"

text \<open>Here the refresh click is not guarded: an exception leaves \<open>processStation\<close>.\<close>

function ocr_query_loop :: "env \<Rightarrow> nat \<Rightarrow> world \<Rightarrow> (exn + bool) \<times> nat \<times> world" where
  "ocr_query_loop env attempts w =
     (if attempts < 5 then
        (let attempts' = attempts + 1
         in case (if attempts' > 1 then (click_error env (tick w), emit Refresh (next_tick w))
                  else (None, w)) of
              (Some m, w1) \<Rightarrow> (Inl (Error m), attempts', w1)
            | (None, w1) \<Rightarrow>
               (case ocr_solveCaptcha env w1 of
                  (code, w2) \<Rightarrow>
                    if ocr_skips code then ocr_query_loop env attempts' w2
                    else
                      (let c = (case code of None \<Rightarrow> [] | Some c \<Rightarrow> c);
                           w3 = emit (Submit c) (next_tick w2)
                       in case submission env (tick w2) of
                            Type_fault m \<Rightarrow> (Inl (Error m), attempts', next_tick w2)
                          | Submit_fault m \<Rightarrow> (Inl (Error m), attempts', w3)
                          | Submitted alertMsg rendered \<Rightarrow>
                              if rendered \<and> \<not> truthy alertMsg then (Inr True, attempts', w3)
                              else ocr_query_loop env attempts' w3)))
      else (Inr False, attempts, w))"
  by pat_completeness auto
termination
  by (relation "measure (\<lambda>(env, attempts, w). 5 - attempts)") auto

declare ocr_query_loop.simps [simp del]

subsection \<open>Pagination (parsePageInfo, lines 276-316; the loop, lines 531-577)\<close>

text \<open>
  The object \<open>parsePageInfo\<close> returns. In the no-data case it has no \<open>hasNextButton\<close>
  property; the loop never reads it there, and \<open>undefined\<close> is falsy, so the model puts \<open>False\<close>.
\<close>

record page_info =
  info_current :: nat
  info_total :: nat
  info_count :: nat
  info_noData :: bool
  info_hasNextButton :: bool

definition parsePageInfo :: "page \<Rightarrow> page_info" where
  "parsePageInfo pg =
     (if no_data_text pg
      then \<lparr>info_current = 1, info_total = 1, info_count = 0, info_noData = True,
            info_hasNextButton = False\<rparr>
      else
        (let cnt = (case count_text pg of None \<Rightarrow> 0 | Some n \<Rightarrow> n);
             cur = (case pages_text pg of None \<Rightarrow> 1 | Some (c, t) \<Rightarrow> c);
             tot = (case pages_text pg of None \<Rightarrow> 1 | Some (c, t) \<Rightarrow> t);
             hasNextButton = (status_next_page pg \<or> next_id pg);
             tot' = (if tot = 1 \<and> hasNextButton then 2 else tot)
         in \<lparr>info_current = cur, info_total = tot', info_count = cnt, info_noData = False,
             info_hasNextButton = hasNextButton\<rparr>))"

text \<open>
  The pagination loop, for the listing opened at tick \<open>q\<close>, after \<open>k\<close> clicks. The loop has
  no bound of its own: it runs as long as the portal shows a next-page control. \<open>fuel\<close>
  bounds the iterations of the model, and \<open>None\<close> says the fuel ran out. The page is
  taken to be the same when it is parsed and when the control is looked up for the click.
\<close>

fun paginate :: "nat \<Rightarrow> env \<Rightarrow> nat \<Rightarrow> nat \<Rightarrow> plate list \<Rightarrow> world
    \<Rightarrow> ((exn + plate list) \<times> world) option" where
  "paginate 0 env q k collectedPlates w = None"
| "paginate (Suc fuel) env q k collectedPlates w =
     (case listing env q k of
        Inl m \<Rightarrow> Some (Inl (Error m), w)
      | Inr pg \<Rightarrow>
          (let info = parsePageInfo pg
           in if info_noData info then Some (Inr collectedPlates, w)
              else
                (let plates = scraped (cells pg);
                     collected' = (if length plates > 0 then collectedPlates @ plates
                                   else collectedPlates)
                 in if info_current info < info_total info \<or> info_hasNextButton info
                    then (if status_next_page pg \<or> next_id pg
                          then paginate fuel env q (k + 1) collected' (emit Click_next w)
                          else Some (Inr collected', w))
                    else Some (Inr collected', w))))"

subsection \<open>processStation (lines 349-635)\<close>

text \<open>
  The staging insert of one query (lines 578-608); the result is the new \<open>platesFound\<close>.
  The insert is one statement: when it returns an error it has written no row.
\<close>

definition stage :: "env \<Rightarrow> string \<Rightarrow> station \<Rightarrow> string \<Rightarrow> plate list \<Rightarrow> nat \<Rightarrow> world
    \<Rightarrow> nat \<times> world" where
  "stage env deptId st pType collectedPlates platesFound w =
     (if length collectedPlates > 0 then
        (let rows = rows_to_insert deptId st pType collectedPlates;
             w1 = emit (Insert rows (db_error env (tick w))) (next_tick w)
         in case db_error env (tick w) of
              Some m \<Rightarrow> (platesFound, addError (st_name st) (''DB Staging Error: '' @ m) w1)
            | None \<Rightarrow>
                (platesFound + length rows,
                 w1\<lparr>staging := staging w1 @ rows,
                    stats := (stats w1)\<lparr>totalPlates := totalPlates (stats w1) + length rows\<rparr>\<rparr>))
      else (platesFound, w))"

text \<open>Navigation with retries (lines 384-399).\<close>

function navigate :: "env \<Rightarrow> nat \<Rightarrow> world \<Rightarrow> (exn + unit) \<times> world" where
  "navigate env navAttempts w =
     (if navAttempts < 3 then
        (let navAttempts' = navAttempts + 1;
             w1 = emit Goto (next_tick w)
         in case goto_error env (tick w) of
              None \<Rightarrow> (Inr (), w1)
            | Some m \<Rightarrow>
                if navAttempts' < 3 then navigate env navAttempts' w1
                else (Inl (Error m), w1))
      else (Inr (), w))"
  by pat_completeness auto
termination
  by (relation "measure (\<lambda>(env, navAttempts, w). 3 - navAttempts)") auto

declare navigate.simps [simp del]

text \<open>
  One round of the loop over the plate types (lines 379-617). The local variables of
  \<open>processStation\<close> that the round reads and writes are \<open>(platesFound, retries, status)\<close>.
\<close>

definition process_type :: "nat \<Rightarrow> env \<Rightarrow> string \<Rightarrow> station \<Rightarrow> string \<Rightarrow> nat \<times> nat \<times> string
    \<Rightarrow> world \<Rightarrow> ((exn + nat \<times> nat \<times> string) \<times> world) option" where
  "process_type fuel env deptId st pType locals w =
     (case locals of (platesFound, retries, st_status) \<Rightarrow>
      (case navigate env 0 w of
         (Inl e, w1) \<Rightarrow> Some (Inl e, w1)
       | (Inr u, w1) \<Rightarrow>
           (let w2 = next_tick w1
            in case form env (tick w1) of
                 Form_fault m \<Rightarrow> Some (Inl (Error m), w2)
               | Type_absent \<Rightarrow> Some (Inr (platesFound, retries, st_status), w2)
               | Type_selected \<Rightarrow>
                   (case query_loop env 0 retries w2 of
                      (Inl e, attempts, retries', w3) \<Rightarrow> Some (Inl e, w3)
                    | (Inr success, attempts, retries', w3) \<Rightarrow>
                        if success then
                          (case paginate fuel env (tick w3) 0 [] w3 of
                             None \<Rightarrow> None
                           | Some (Inl e, w4) \<Rightarrow> Some (Inl e, w4)
                           | Some (Inr collectedPlates, w4) \<Rightarrow>
                               (case stage env deptId st pType collectedPlates platesFound w4 of
                                  (platesFound', w5) \<Rightarrow>
                                    Some (Inr (platesFound', retries', st_status), w5)))
                        else
                          Some (Inr (platesFound, retries', ''FAILED''),
                                addError (st_name st) ''Max attempts reached or navigation failed.''
                                  (w3\<lparr>stats := (stats w3)\<lparr>stationsFailed :=
                                                  stationsFailed (stats w3) + 1\<rparr>\<rparr>))))))"

fun process_types :: "nat \<Rightarrow> env \<Rightarrow> string \<Rightarrow> station \<Rightarrow> string list \<Rightarrow> nat \<times> nat \<times> string
    \<Rightarrow> world \<Rightarrow> ((exn + nat \<times> nat \<times> string) \<times> world) option" where
  "process_types fuel env deptId st [] locals w = Some (Inr locals, w)"
| "process_types fuel env deptId st (pType # rest) locals w =
     (case process_type fuel env deptId st pType locals w of
        None \<Rightarrow> None
      | Some (Inl e, w1) \<Rightarrow> Some (Inl e, w1)
      | Some (Inr locals', w1) \<Rightarrow> process_types fuel env deptId st rest locals' w1)"

text \<open>
  Line 629 calls \<open>getRegion(station.id)\<close> while building the argument of
  \<open>stats.addStationStat\<close> (line 626). The program declares no \<open>getRegion\<close> (no function,
  variable or import of that name, and no module it loads defines such a global), so
  evaluating the identifier throws a \<open>ReferenceError\<close>; and class \<open>SyncStats\<close> has the
  methods \<open>addError\<close> and \<open>save\<close> only, so the call itself would throw a \<open>TypeError\<close>.
\<close>

definition getRegion :: "string \<Rightarrow> exn + string" where
  "getRegion station = Inl (ReferenceError ''getRegion is not defined'')"

definition addStationStat :: "string \<times> string \<times> string \<times> nat \<times> nat \<times> string \<Rightarrow> SyncStats
    \<Rightarrow> exn + SyncStats" where
  "addStationStat stat s = Inl (TypeError ''stats.addStationStat is not a function'')"

definition in_partition :: "string \<Rightarrow> station \<Rightarrow> staging_row \<Rightarrow> bool" where
  "in_partition deptId st r = (station_id r = st_id st \<and> region_id r = deptId)"

definition process_station :: "nat \<Rightarrow> env \<Rightarrow> string \<Rightarrow> station \<Rightarrow> world
    \<Rightarrow> ((exn + unit) \<times> world) option" where
  "process_station fuel env deptId st w =
     (let w0 = emit (Station_begin (st_id st) deptId) w;
          w1 = next_tick
                 (case db_error env (tick w0) of
                    Some m \<Rightarrow> w0
                  | None \<Rightarrow> w0\<lparr>staging := filter (\<lambda>r. \<not> in_partition deptId st r) (staging w0)\<rparr>);
          plateTypes = [''g''] @ (if \<not> no_rental st then [''h''] else [])
      in case process_types fuel env deptId st plateTypes (0, 0, ''SUCCESS'') w1 of
           None \<Rightarrow> None
         | Some (Inl e, w2) \<Rightarrow> Some (Inl e, w2)
         | Some (Inr (platesFound, retries, st_status), w2) \<Rightarrow>
             (let w3 = (if st_status \<noteq> ''FAILED''
                        then w2\<lparr>stats := (stats w2)\<lparr>stationsSuccess :=
                                            stationsSuccess (stats w2) + 1\<rparr>\<rparr>
                        else w2)
              in case getRegion (st_id st) of
                   Inl e \<Rightarrow> Some (Inl e, w3)
                 | Inr region \<Rightarrow>
                     (case addStationStat (st_id st, st_name st, region, platesFound, retries,
                                           st_status) (stats w3) of
                        Inl e \<Rightarrow> Some (Inl e, w3)
                      | Inr s \<Rightarrow> Some (Inr (), w3\<lparr>stats := s\<rparr>))))"

subsection \<open>The database procedures (lines 320-347)\<close>

text \<open>An \<open>upsert\<close> on \<open>sync_metadata\<close> with conflict key \<open>key\<close>.\<close>

definition reportStatus :: "env \<Rightarrow> string \<Rightarrow> string option \<Rightarrow> string \<Rightarrow> world \<Rightarrow> world" where
  "reportStatus env st_text msg key w =
     next_tick
       (case db_error env (tick w) of
          Some m \<Rightarrow> w
        | None \<Rightarrow> w\<lparr>sync_metadata := Map_set key (st_text, msg) (sync_metadata w)\<rparr>)"

text \<open>\<open>delete().neq('plate_no', 'FORCE_DELETE_ALL')\<close>\<close>

definition clearStaging :: "env \<Rightarrow> world \<Rightarrow> world" where
  "clearStaging env w =
     next_tick
       (case db_error env (tick w) of
          Some m \<Rightarrow> w
        | None \<Rightarrow> w\<lparr>staging := filter (\<lambda>r. \<not> (plate_no r \<noteq> ''FORCE_DELETE_ALL'')) (staging w)\<rparr>)"

text \<open>
  Modelled from the spec: the stored procedure \<open>swap_plates_data\<close> is not among the
  source files. The specification describes it as one transaction that replaces the
  contents of the production view with the contents of staging.
\<close>

definition swap_plates_data :: "world \<Rightarrow> world" where
  "swap_plates_data w = w\<lparr>production := staging w\<rparr>"

definition performSwap :: "env \<Rightarrow> world \<Rightarrow> world" where
  "performSwap env w =
     (let w1 = emit Swap (next_tick w)
      in case db_error env (tick w) of
           Some m \<Rightarrow> reportStatus env ''FAILED'' (Some (''Atomic Swap Failed: '' @ m))
                       ''plates_full_sync'' w1
         | None \<Rightarrow> swap_plates_data w1)"

text \<open>\<open>stats.save()\<close>: an upsert of the statistics into \<open>sync_logs\<close>.\<close>

definition save :: "env \<Rightarrow> world \<Rightarrow> world" where
  "save env w =
     next_tick
       (case db_error env (tick w) of
          Some m \<Rightarrow> w
        | None \<Rightarrow> w\<lparr>sync_logs := Some (stats w)\<rparr>)"

subsection \<open>The entry point of the worker (lines 86-89, 108-131 and 639-760)\<close>

text \<open>
  One entry of the station configuration; \<open>dept_id\<close> is the property key that \<open>dept.id\<close>
  converts to.
\<close>

record dept =
  dept_id :: string
  dept_stations :: "station list"

text \<open>The answer to the query of \<open>loadStationData\<close>: an error, no row, or the configured value.\<close>

datatype load_outcome = Load_error string | Load_missing | Load_ok "dept list"

text \<open>
  What the run is started with: whether the three required environment variables are
  set, the value of \<open>--shard=\<close> if given, the station configuration in the database, and
  the messages thrown by \<open>puppeteer.launch\<close> and by the page set-up of lines 675-690, if
  they throw.
\<close>

record startup =
  env_vars_set :: bool
  TARGET_SHARD :: "string option"
  roster :: load_outcome
  launch_error :: "string option"
  setup_error :: "string option"

text \<open>
  How a script ends: \<open>process.exit(n)\<close>; or the end of its code, after which the process
  ends by itself; or a rejected promise nobody awaits, which the handler of line 18 logs,
  with no call of \<open>process.exit\<close>.
\<close>

datatype outcome = Exit nat | Returned | Unhandled_rejection exn

text \<open>
  \<open>Object.keys\<close>: the keys that are array indices first, in ascending numeric order, then
  the other keys in the order of their creation.
\<close>

definition is_array_index :: "string \<Rightarrow> bool" where
  "is_array_index s =
     (s \<noteq> [] \<and> list_all (is_digit 10) s \<and> (s = ''0'' \<or> take 1 s \<noteq> ''0'') \<and>
      digits_value 10 s < 4294967295)"

definition Object_entries :: "(string \<times> 'v) list \<Rightarrow> (string \<times> 'v) list" where
  "Object_entries obj =
     sort_key (\<lambda>kv. digits_value 10 (fst kv)) (filter (\<lambda>kv. is_array_index (fst kv)) obj)
     @ filter (\<lambda>kv. \<not> is_array_index (fst kv)) obj"

text \<open>
  \<open>loadStationData\<close>: the result is the global \<open>TARGET_DEPTS\<close>, its own properties in the
  order of their creation. \<open>TARGET_DEPTS\<close> is an ordinary object, so the assignment
  \<open>TARGET_DEPTS[dept.id] = stations\<close> (line 124) with the key \<open>__proto__\<close> calls the setter
  inherited from \<open>Object.prototype\<close>: the array becomes the prototype of the object and
  no own property is created. Every other key names a data property.
\<close>

definition loadStationData :: "startup \<Rightarrow> exn + (string \<times> station list) list" where
  "loadStationData su =
     (case roster su of
        Load_error m \<Rightarrow> Inl (Error (''Failed to load station config: '' @ m))
      | Load_missing \<Rightarrow> Inl (Error ''Station config not found in DB'')
      | Load_ok stationData \<Rightarrow>
          Inr (foldl (\<lambda>target d.
                 (let stations = filter (\<lambda>s. \<not> truthy (TARGET_SHARD su)
                                              \<or> st_shard s = TARGET_SHARD su) (dept_stations d)
                  in if length stations > 0
                     then (if dept_id d = ''__proto__'' then target
                           else Map_set (dept_id d) stations target)
                     else target)) [] stationData))"

definition syncKey :: "startup \<Rightarrow> string" where
  "syncKey su =
     (if truthy (TARGET_SHARD su)
      then ''plates_sync_shard_'' @ (case TARGET_SHARD su of None \<Rightarrow> [] | Some s \<Rightarrow> s)
      else ''plates_full_sync'')"

text \<open>The loops over the stations of a department and over the departments (lines 700-711).\<close>

fun run_stations :: "nat \<Rightarrow> env \<Rightarrow> string \<Rightarrow> station list \<Rightarrow> world
    \<Rightarrow> ((exn + unit) \<times> world) option" where
  "run_stations fuel env deptId [] w = Some (Inr (), w)"
| "run_stations fuel env deptId (st # rest) w =
     (case process_station fuel env deptId st w of
        None \<Rightarrow> None
      | Some (Inl e, w1) \<Rightarrow> Some (Inl e, w1)
      | Some (Inr u, w1) \<Rightarrow> run_stations fuel env deptId rest w1)"

fun run_depts :: "nat \<Rightarrow> env \<Rightarrow> (string \<times> station list) list \<Rightarrow> world
    \<Rightarrow> ((exn + unit) \<times> world) option" where
  "run_depts fuel env [] w = Some (Inr (), w)"
| "run_depts fuel env ((deptId, stations) # rest) w =
     (case run_stations fuel env deptId stations w of
        None \<Rightarrow> None
      | Some (Inl e, w1) \<Rightarrow> Some (Inl e, w1)
      | Some (Inr u, w1) \<Rightarrow> run_depts fuel env rest w1)"

text \<open>The body of the \<open>try\<close> (lines 674-728).\<close>

definition main_try :: "nat \<Rightarrow> env \<Rightarrow> startup \<Rightarrow> (string \<times> station list) list \<Rightarrow> world
    \<Rightarrow> ((exn + unit) \<times> world) option" where
  "main_try fuel env su target w =
     (case setup_error su of
        Some m \<Rightarrow> Some (Inl (Error m), w)
      | None \<Rightarrow>
          (let w1 = reportStatus env ''RUNNING'' None (syncKey su) w;
               w2 = (if TARGET_SHARD su = None then clearStaging env w1 else w1)
           in case run_depts fuel env (Object_entries target) w2 of
                None \<Rightarrow> None
              | Some (Inl e, w3) \<Rightarrow> Some (Inl e, w3)
              | Some (Inr u, w3) \<Rightarrow>
                  (let w4 = (if TARGET_SHARD su = None then performSwap env w3 else w3);
                       count = (case db_error env (tick w4) of
                                  Some m \<Rightarrow> None
                                | None \<Rightarrow> Some (length (staging w4)));
                       w5 = next_tick w4
                   in if count = Some 0 \<and> \<not> truthy (TARGET_SHARD su)
                      then Some (Inr (),
                             reportStatus env ''WARNING'' (Some ''Sync completed but 0 plates found.'')
                               (syncKey su) (w5\<lparr>stats := (stats w5)\<lparr>status := ''WARNING''\<rparr>\<rparr>))
                      else Some (Inr (),
                             reportStatus env ''COMPLETED'' None (syncKey su)
                               (w5\<lparr>stats := (stats w5)\<lparr>status := ''COMPLETED''\<rparr>\<rparr>)))))"

text \<open>
  The script from the check of the environment to \<open>process.exit\<close>. \<open>None\<close> says that the
  fuel of a pagination ran out.
\<close>

definition main :: "nat \<Rightarrow> env \<Rightarrow> startup \<Rightarrow> world \<Rightarrow> (outcome \<times> world) option" where
  "main fuel env su w =
     (if \<not> env_vars_set su then Some (Exit 1, w)
      else
        (case loadStationData su of
           Inl err \<Rightarrow> Some (Exit 1, w)
         | Inr target \<Rightarrow>
             (case launch_error su of
                Some m \<Rightarrow> Some (Unhandled_rejection (Error m), w)
              | None \<Rightarrow>
                  (case main_try fuel env su target w of
                     None \<Rightarrow> None
                   | Some (r, w1) \<Rightarrow>
                       (let w2 = (case r of
                                    Inr u \<Rightarrow> w1
                                  | Inl e \<Rightarrow>
                                      reportStatus env ''FAILED'' (Some (message e)) (syncKey su)
                                        (addError ''GLOBAL'' (message e)
                                           (w1\<lparr>stats := (stats w1)\<lparr>status := ''FAILED''\<rparr>\<rparr>)));
                            w3 = save env w2
                        in Some (Exit 0, w3))))))"

subsection \<open>The finalizer (trigger_swap.cjs)\<close>

text \<open>
  The upsert of line 44 gives no \<open>status_message\<close>: an existing row keeps its message.
  Its result is not inspected.
\<close>

definition upsert_status :: "string \<Rightarrow> string \<Rightarrow> (string \<times> string \<times> string option) list
    \<Rightarrow> (string \<times> string \<times> string option) list" where
  "upsert_status key st_text m =
     (case map_of m key of
        None \<Rightarrow> Map_set key (st_text, None) m
      | Some (old, msg) \<Rightarrow> Map_set key (st_text, msg) m)"

definition trigger_swap_run :: "bool \<Rightarrow> env \<Rightarrow> world \<Rightarrow> outcome \<times> world" where
  "trigger_swap_run credentials_set env w =
     (if \<not> credentials_set then (Exit 1, w)
      else
        (let w1 = next_tick w
         in case db_error env (tick w) of
              Some m \<Rightarrow> (Exit 1, w1)
            | None \<Rightarrow>
                (let count = length (staging w1)
                 in if count = 0 then (Returned, w1)
                    else
                      (let w2 = emit Swap (next_tick w1)
                       in case db_error env (tick w1) of
                            Some m \<Rightarrow> (Exit 1, w2)
                          | None \<Rightarrow>
                              (let w3 = swap_plates_data w2;
                                   w4 = next_tick
                                          (case db_error env (tick w3) of
                                             Some m \<Rightarrow> w3
                                           | None \<Rightarrow>
                                               w3\<lparr>sync_metadata :=
                                                    upsert_status ''plates_full_sync'' ''COMPLETED''
                                                      (sync_metadata w3)\<rparr>)
                               in (Returned, w4))))))"

subsection \<open>Concrete inputs\<close>

text \<open>An outside where nothing fails, the solver reads \<open>ab12\<close> and every listing is one page.\<close>

definition one_page :: page where
  "one_page =
     \<lparr>no_data_text = False, count_text = Some 1, pages_text = Some (1, 1),
      status_next_page = False, next_id = False,
      cells = [\<lparr>no = Some ''ABC-1234'', price_text = Some ''50000''\<rparr>]\<rparr>"

definition calm_env :: env where
  "calm_env =
     \<lparr>db_error = (\<lambda>t. None), goto_error = (\<lambda>t. None), form = (\<lambda>t. Type_selected),
      solver = (\<lambda>t. Some ''ab12''), click_error = (\<lambda>t. None),
      submission = (\<lambda>t. Submitted None True), listing = (\<lambda>q k. Inr one_page)\<rparr>"

definition empty_world :: world where
  "empty_world =
     \<lparr>tick = 0, staging = [], production = [], sync_metadata = [], sync_logs = None,
      stats = new_SyncStats, events = []\<rparr>"

subsection \<open>Reading the events of a CAPTCHA loop\<close>

text \<open>The check of the OCR variant, read positively.\<close>

definition ocr_accepts :: "string option \<Rightarrow> bool" where
  "ocr_accepts code = (\<not> ocr_skips code)"

text \<open>
  A checker for the order of refreshes, solver answers and submissions, for a worker
  whose check of an answer is \<open>ok\<close>. It starts in \<open>Fresh\<close> (a newly loaded form). An
  answer that passes the check leads to \<open>Candidate\<close>, from where only the submission of
  that very code may follow; any other answer leads to \<open>Invalid_answer\<close>, from where only
  a refresh may follow; after a refresh only a solver call may follow; after a
  submission only a refresh may follow. Anything else leads to \<open>Out_of_order\<close>, which is
  never left. A navigation loads the form anew; the remaining events are not part of the
  loop.
\<close>

datatype captcha_state =
    Fresh
  | Invalid_answer
  | Refreshed
  | Candidate string
  | After_submit
  | Out_of_order

fun captcha_step :: "(string option \<Rightarrow> bool) \<Rightarrow> captcha_state \<Rightarrow> event \<Rightarrow> captcha_state" where
  "captcha_step ok Out_of_order e = Out_of_order"
| "captcha_step ok s Goto = Fresh"
| "captcha_step ok s (Station_begin i d) = s"
| "captcha_step ok s Click_next = s"
| "captcha_step ok s (Insert rows err) = s"
| "captcha_step ok s Swap = s"
| "captcha_step ok Fresh (Solve r) =
     (if ok r then Candidate (case r of None \<Rightarrow> [] | Some c \<Rightarrow> c) else Invalid_answer)"
| "captcha_step ok Refreshed (Solve r) =
     (if ok r then Candidate (case r of None \<Rightarrow> [] | Some c \<Rightarrow> c) else Invalid_answer)"
| "captcha_step ok s (Solve r) = Out_of_order"
| "captcha_step ok Invalid_answer Refresh = Refreshed"
| "captcha_step ok After_submit Refresh = Refreshed"
| "captcha_step ok s Refresh = Out_of_order"
| "captcha_step ok (Candidate c) (Submit c') = (if c = c' then After_submit else Out_of_order)"
| "captcha_step ok s (Submit c') = Out_of_order"

definition captcha_state_of :: "(string option \<Rightarrow> bool) \<Rightarrow> world \<Rightarrow> captcha_state" where
  "captcha_state_of ok w = foldl (captcha_step ok) Fresh (events w)"

text \<open>
  The checker has ended in step with the loop: in \<open>Invalid_answer\<close> or \<open>After_submit\<close>;
  or, when an exception has cut the loop short, with a refresh not yet followed by a
  solver call, or with a candidate not yet submitted.
\<close>

fun in_step :: "captcha_state \<Rightarrow> bool \<Rightarrow> bool" where
  "in_step Invalid_answer thrown = True"
| "in_step After_submit thrown = True"
| "in_step Refreshed thrown = thrown"
| "in_step (Candidate c) thrown = thrown"
| "in_step Fresh thrown = False"
| "in_step Out_of_order thrown = False"

text \<open>
  The rows written by the inserts among some events: those of the calls that returned no
  error, in the order of the calls.
\<close>

definition inserted :: "event list \<Rightarrow> staging_row list" where
  "inserted es =
     concat (map (\<lambda>e. case e of Insert rows None \<Rightarrow> rows | _ \<Rightarrow> []) es)"

text \<open>The events a step adds to the ones that were there before.\<close>

definition new_events :: "world \<Rightarrow> world \<Rightarrow> event list" where
  "new_events w w' = drop (length (events w)) (events w')"

definition count_solves :: "event list \<Rightarrow> nat" where
  "count_solves es = length (filter (\<lambda>e. case e of Solve r \<Rightarrow> True | _ \<Rightarrow> False) es)"

definition count_submits :: "event list \<Rightarrow> nat" where
  "count_submits es = length (filter (\<lambda>e. case e of Submit c \<Rightarrow> True | _ \<Rightarrow> False) es)"

text \<open>
  A step has only added events, and the staging table has grown by exactly the rows of
  the successful inserts among them: nothing was deleted or changed. A step is quiet
  when, moreover, it has made no successful insert.
\<close>

definition grows :: "world \<Rightarrow> world \<Rightarrow> bool" where
  "grows w w' =
     ((\<exists>tr. events w' = events w @ tr) \<and>
      staging w' = staging w @ inserted (new_events w w'))"

definition quiet :: "world \<Rightarrow> world \<Rightarrow> bool" where
  "quiet w w' =
     (staging w' = staging w \<and> (\<exists>tr. events w' = events w @ tr \<and> inserted tr = []))"

text \<open>
  What a run of the outer loop from attempt \<open>a\<close> leaves behind: at most ten attempts, five
  solver calls and one submission per attempt, only well-formed codes submitted, the
  staging table and the failure counter untouched.
\<close>

definition query_post :: "nat \<Rightarrow> world \<Rightarrow> (exn + bool) \<Rightarrow> nat \<Rightarrow> world \<Rightarrow> bool" where
  "query_post a w res a' w' =
     (a \<le> a' \<and> a' \<le> 10 \<and> (res = Inr False \<longrightarrow> a' = 10) \<and>
      captchaAttempts (stats w') \<le> captchaAttempts (stats w) + 5 * (a' - a) \<and>
      stationsFailed (stats w') = stationsFailed (stats w) \<and>
      staging w' = staging w \<and>
      (\<exists>tr. events w' = events w @ tr \<and> count_solves tr \<le> 5 * (a' - a) \<and>
            count_submits tr \<le> a' - a \<and> inserted tr = [] \<and>
            (\<forall>c. Submit c \<in> set tr \<longrightarrow> length c = 4 \<and> list_all is_AZ09 c)))"

text \<open>The same for the loop of the OCR variant: at most five attempts, one solver call each.\<close>

definition ocr_post :: "nat \<Rightarrow> world \<Rightarrow> (exn + bool) \<Rightarrow> nat \<Rightarrow> world \<Rightarrow> bool" where
  "ocr_post a w res a' w' =
     (a \<le> a' \<and> a' \<le> 5 \<and> (res = Inr False \<longrightarrow> a' = 5) \<and>
      (\<exists>tr. events w' = events w @ tr \<and> count_solves tr \<le> a' - a \<and>
            count_submits tr \<le> a' - a \<and>
            (\<forall>c. Submit c \<in> set tr \<longrightarrow> length c \<ge> 4 \<and> list_all is_AZ09 c)))"

text \<open>A solver that never answers, one that answers with five characters, and one that
  needs three calls for a code of four characters.\<close>

definition deaf_env :: env where
  "deaf_env = calm_env\<lparr>solver := (\<lambda>t. None)\<rparr>"

definition long_env :: env where
  "long_env = calm_env\<lparr>solver := (\<lambda>t. Some ''ab12c'')\<rparr>"

definition slow_env :: env where
  "slow_env = calm_env\<lparr>solver := (\<lambda>t. if t < 2 then Some ''abc'' else Some '' ab-12 '')\<rparr>"

text \<open>A listing of two pages: the first says page 1 of 1 and shows the \<open>#next\<close> control.\<close>

definition first_page :: page where
  "first_page =
     \<lparr>no_data_text = False, count_text = Some 2, pages_text = Some (1, 1),
      status_next_page = False, next_id = True,
      cells = [\<lparr>no = Some ''XYZ-0001'', price_text = Some ''3,000''\<rparr>]\<rparr>"

definition two_page_env :: env where
  "two_page_env = calm_env\<lparr>listing := (\<lambda>q k. if k = 0 then Inr first_page else Inr one_page)\<rparr>"

text \<open>A staging table with a stale row of station 20 in department 2 and rows of two other
  partitions.\<close>

definition old_rows :: "staging_row list" where
  "old_rows =
     [\<lparr>station_id = ''20'', station_name = ''Taipei'', region_id = ''2'', plate_type = ''g'',
       window_id = ''01'', plate_no = ''OLD-0001'', price = Num 1000, row_status = ''AVAILABLE''\<rparr>,
      \<lparr>station_id = ''21'', station_name = ''Shilin'', region_id = ''2'', plate_type = ''g'',
       window_id = ''01'', plate_no = ''OLD-0002'', price = Num 2000, row_status = ''AVAILABLE''\<rparr>,
      \<lparr>station_id = ''20'', station_name = ''Elsewhere'', region_id = ''3'', plate_type = ''h'',
       window_id = ''01'', plate_no = ''OLD-0003'', price = Num 3000, row_status = ''AVAILABLE''\<rparr>]"

text \<open>
  A result page ends a listing when a page operation throws there, when it shows the
  no-data text, or when it shows no next-page control. All listings of an outside end
  within \<open>n\<close> pages when each has such a page among its first \<open>n\<close>.
\<close>

definition page_stops :: "string + page \<Rightarrow> bool" where
  "page_stops x =
     (case x of Inl m \<Rightarrow> True
      | Inr pg \<Rightarrow> no_data_text pg \<or> \<not> (status_next_page pg \<or> next_id pg))"

definition listing_ends :: "env \<Rightarrow> nat \<Rightarrow> bool" where
  "listing_ends env n = (\<forall>q. \<exists>k<n. page_stops (listing env q k))"

text \<open>
  No operation on the page throws: navigation, the form selections, typing and
  submitting, and reading the result pages all return. A rejected or unanswered CAPTCHA
  is not a throw and may still happen.
\<close>

definition faultless :: "env \<Rightarrow> bool" where
  "faultless env =
     ((\<forall>t. goto_error env t = None) \<and> (\<forall>t m. form env t \<noteq> Form_fault m) \<and>
      (\<forall>t m. submission env t \<noteq> Type_fault m \<and> submission env t \<noteq> Submit_fault m) \<and>
      (\<forall>q k m. listing env q k \<noteq> Inl m))"

text \<open>The state in which the loop over the stations starts (lines 692-698).\<close>

definition after_setup :: "env \<Rightarrow> startup \<Rightarrow> world \<Rightarrow> world" where
  "after_setup env su w =
     (let w1 = reportStatus env ''RUNNING'' None (syncKey su) w
      in if TARGET_SHARD su = None then clearStaging env w1 else w1)"

text \<open>
  Runs in full mode: a roster of one department with two stations; the same with a page
  set-up that throws; a run without its environment variables; and an empty roster.
\<close>

definition two_stations :: startup where
  "two_stations =
     \<lparr>env_vars_set = True, TARGET_SHARD = None,
      roster = Load_ok [\<lparr>dept_id = ''2'',
                         dept_stations = [example_station,
                                          \<lparr>st_id = ''21'', st_name = ''Shilin'', st_shard = None,
                                           no_rental = False\<rparr>]\<rparr>],
      launch_error = None, setup_error = None\<rparr>"

definition crashed_setup :: startup where
  "crashed_setup = two_stations\<lparr>setup_error := Some ''Target closed''\<rparr>"

definition no_env_vars :: startup where
  "no_env_vars = two_stations\<lparr>env_vars_set := False\<rparr>"

definition empty_roster :: startup where
  "empty_roster = two_stations\<lparr>roster := Load_ok []\<rparr>"

section \<open>Properties\<close>

subsection \<open>Adaptive pacing\<close>

lemma floor_three_quarters: "\<lfloor>rat_of_int a * 3 / 4\<rfloor> = (3 * a) div 4"
proof -
  have "rat_of_int a * 3 / 4 = of_int (3 * a) / of_int 4" by simp
  then show ?thesis by (simp only: floor_divide_of_int_eq)
qed

lemma floor_three_halves: "\<lfloor>rat_of_int a * 3 / 2\<rfloor> = (3 * a) div 2"
proof -
  have "rat_of_int a * 3 / 2 = of_int (3 * a) / of_int 2" by simp
  then show ?thesis by (simp only: floor_divide_of_int_eq)
qed

lemma adaptiveSleep_floor:
  "adaptiveSleep mn mx latency =
     (if latency < 1500 then ((3 * mn) div 4, (3 * mx) div 4)
      else if latency > 4000 then ((3 * mn) div 2, (3 * mx) div 2) else (mn, mx))"
  by (simp add: adaptiveSleep_def Let_def floor_three_quarters floor_three_halves)

lemma exact_quarters: "4 dvd a \<Longrightarrow> rat_of_int ((3 * a) div 4) = 3/4 * of_int a"
  by (auto elim!: dvdE)

lemma exact_halves: "2 dvd a \<Longrightarrow> rat_of_int ((3 * a) div 2) = 3/2 * of_int a"
  by (auto elim!: dvdE)

lemma call_sites_divisible:
  "(mn, mx) \<in> set adaptive_call_sites \<Longrightarrow> 4 dvd mn \<and> 4 dvd mx"
  by (auto simp: adaptive_call_sites_def)

text \<open>
  Claim C8. For every measured latency, \<open>adaptiveSleep\<close> scales the base bounds of every
  call site of the worker by exactly 0.75 when the latency is below 1500 ms, by exactly
  1.5 when it is above 4000 ms, and leaves them unchanged otherwise (1500 and 4000
  included). The rounding down of \<open>Math.floor\<close> (lemma \<open>adaptiveSleep_floor\<close>) changes
  nothing at these call sites, whose bounds are all multiples of four.
\<close>

theorem adaptiveSleep_scales:
  assumes "(mn, mx) \<in> set adaptive_call_sites"
  shows "(latency < 1500 \<longrightarrow>
            rat_of_int (fst (adaptiveSleep mn mx latency)) = 3/4 * of_int mn \<and>
            rat_of_int (snd (adaptiveSleep mn mx latency)) = 3/4 * of_int mx) \<and>
         (4000 < latency \<longrightarrow>
            rat_of_int (fst (adaptiveSleep mn mx latency)) = 3/2 * of_int mn \<and>
            rat_of_int (snd (adaptiveSleep mn mx latency)) = 3/2 * of_int mx) \<and>
         (1500 \<le> latency \<and> latency \<le> 4000 \<longrightarrow> adaptiveSleep mn mx latency = (mn, mx))"
proof -
  from assms have d: "4 dvd mn" "4 dvd mx" "2 dvd mn" "2 dvd mx"
    using call_sites_divisible by (auto intro: dvd_trans[of 2 4])
  show ?thesis
    using d by (simp add: adaptiveSleep_floor exact_quarters exact_halves)
qed

theorem adaptiveSleep_scales_witness:
  "(800, 1500) \<in> set adaptive_call_sites \<and>
   adaptiveSleep 800 1500 1000 = (600, 1125) \<and>
   adaptiveSleep 800 1500 5000 = (1200, 2250) \<and>
   adaptiveSleep 800 1500 2500 = (800, 1500) \<and>
   rat_of_int (fst (adaptiveSleep 800 1500 1000)) = 3/4 * 800 \<and>
   rat_of_int (snd (adaptiveSleep 800 1500 5000)) = 3/2 * 1500"
proof -
  have h: "(800, 1500) \<in> set adaptive_call_sites" by (simp add: adaptive_call_sites_def)
  show ?thesis
    using h adaptiveSleep_scales[OF h, of 1000] adaptiveSleep_scales[OF h, of 5000]
      adaptiveSleep_scales[OF h, of 2500]
    by (simp add: adaptiveSleep_floor)
qed

subsection \<open>Rate limiter\<close>

lemma filter_all_below:
  "list_all (\<lambda>t. t \<le> c) grants \<Longrightarrow> c < (a::int) \<Longrightarrow> filter (\<lambda>t. a \<le> t) grants = []"
  by (induction grants) auto

lemma list_all_mono_le:
  "list_all (\<lambda>t. t \<le> c) grants \<Longrightarrow> c \<le> (d::int) \<Longrightarrow> list_all (\<lambda>t. t \<le> d) grants"
  by (induction grants) auto

lemma limiter_inv_init:
  "1 \<le> L \<Longrightarrow> 0 \<le> I \<Longrightarrow> limiter_inv L I (new_RateLimiter L I t0, t0, [])"
  by (simp add: limiter_inv_def new_RateLimiter_def)

lemma limiter_inv_step:
  assumes inv: "limiter_inv L I (rl, clock, grants)"
    and L: "1 \<le> L" and I: "0 \<le> I" and M: "I + 1000 \<le> TIMEOUT_MAX"
    and w: "wait rl (clock + int gap) late = (rl', blocked, t)"
  shows "limiter_inv L I (rl', t, grants @ [t])"
proof -
  let ?now = "clock + int gap"
  from inv have f: "limit rl = L" "interval rl = I" "0 \<le> tokens rl" "tokens rl \<le> L"
      "lastRefill rl \<le> clock" "clock - lastRefill rl \<le> I"
      "list_all (\<lambda>t. t \<le> clock) grants"
      "int (length (filter (\<lambda>t. lastRefill rl \<le> t) grants)) = L - tokens rl"
    by (simp_all add: limiter_inv_def)
  show ?thesis
  proof (cases "?now - lastRefill rl > I")
    case True
    then have "clock < ?now" using f by linarith
    then have e: "filter (\<lambda>t. ?now \<le> t) grants = []"
      using f(7) filter_all_below by blast
    have a: "list_all (\<lambda>t. t \<le> ?now) grants"
      using f(7) list_all_mono_le[of clock grants ?now] by simp
    from True w f L have r: "rl' = rl\<lparr>tokens := L - 1, lastRefill := ?now\<rparr>" "t = ?now"
      by (auto simp: wait_def Let_def)
    show ?thesis using r f L I e a by (simp add: limiter_inv_def)
  next
    case False
    show ?thesis
    proof (cases "tokens rl \<le> 0")
      case True
      then have z: "tokens rl = 0" using f by simp
      let ?wt = "I - (?now - lastRefill rl) + 1000"
      have wt: "1000 \<le> ?wt" "?wt \<le> TIMEOUT_MAX" using False f M by auto
      then have td: "timer_delay ?wt = ?wt" by (simp add: timer_delay_def TIMEOUT_MAX_def)
      let ?woke = "?now + ?wt + int late"
      from False z w f td have r: "rl' = rl\<lparr>tokens := L - 1, lastRefill := ?woke\<rparr>" "t = ?woke"
        by (auto simp: wait_def Let_def)
      have "clock < ?woke" using wt by linarith
      then have e: "filter (\<lambda>t. ?woke \<le> t) grants = []"
        using f(7) filter_all_below by blast
      have a: "list_all (\<lambda>t. t \<le> ?woke) grants"
        using f(7) list_all_mono_le[of clock grants ?woke] wt by simp
      show ?thesis using r f L I e a by (simp add: limiter_inv_def)
    next
      case pos: False
      from False pos w f have r: "rl' = rl\<lparr>tokens := tokens rl - 1\<rparr>" "t = ?now"
        by (auto simp: wait_def Let_def)
      have a: "list_all (\<lambda>t. t \<le> ?now) grants"
        using f(7) list_all_mono_le[of clock grants ?now] by simp
      show ?thesis using r f L I a pos False by (simp add: limiter_inv_def)
    qed
  qed
qed

lemma limiter_inv_run:
  assumes "1 \<le> L" "0 \<le> I" "I + 1000 \<le> TIMEOUT_MAX"
  shows "limiter_inv L I s \<Longrightarrow> limiter_inv L I (run_waits s schedule)"
proof (induction schedule arbitrary: s)
  case Nil
  then show ?case by simp
next
  case (Cons c cs)
  obtain rl clock grants where s: "s = (rl, clock, grants)" by (cases s) auto
  obtain gap late where c: "c = (gap, late)" by (cases c) auto
  obtain rl' blocked t where w: "wait rl (clock + int gap) late = (rl', blocked, t)"
    by (cases "wait rl (clock + int gap) late") auto
  have "limiter_inv L I (rl', t, grants @ [t])"
    using limiter_inv_step[OF _ assms w] Cons.prems s by simp
  then have "limiter_inv L I (run_waits (rl', t, grants @ [t]) cs)" by (rule Cons.IH)
  then show ?case using s c w by simp
qed

lemma run_waits_length:
  "run_waits (rl, clock, grants) schedule = (rl', clock', grants')
     \<Longrightarrow> length grants' = length grants + length schedule"
proof (induction schedule arbitrary: rl clock grants)
  case Nil
  then show ?case by simp
next
  case (Cons c cs)
  then show ?case by (cases c) (auto split: prod.splits)
qed

lemma window_le:
  "limiter_inv L I (rl, clock, grants) \<Longrightarrow> int (length (grants_in_window rl grants)) \<le> L"
proof -
  assume inv: "limiter_inv L I (rl, clock, grants)"
  have "length (filter (\<lambda>t. lastRefill rl \<le> t \<and> t \<le> lastRefill rl + interval rl) grants)
          \<le> length (filter (\<lambda>t. lastRefill rl \<le> t) grants)"
    by (induction grants) auto
  then show ?thesis using inv by (simp add: limiter_inv_def grants_in_window_def)
qed

text \<open>
  Claim C9. A limiter with capacity \<open>L \<ge> 1\<close> and period \<open>I \<ge> 0\<close> (short enough for a
  timer), used by a sequential caller from its construction on: every call of the
  schedule is granted (one grant per call, there is no error outcome); at most \<open>L\<close>
  grants lie in the window of length \<open>I\<close> anchored at the last refill, before and after
  any further call; every call takes one token from the bucket it finds after the refill
  it may cause; a call that finds tokens does not block; a call that finds no token
  before the period has run out sleeps until the refill boundary plus the margin of
  1000 ms, refills to capacity and proceeds; a call that finds no token after the period
  has run out refills at once and proceeds.
\<close>

theorem RateLimiter_guarantees:
  assumes L: "1 \<le> L" and I: "0 \<le> I" and M: "I + 1000 \<le> TIMEOUT_MAX"
    and run: "run_waits (new_RateLimiter L I t0, t0, []) schedule = (rl, clock, grants)"
    and w: "wait rl (clock + int gap) late = (rl', blocked, t)"
  shows "length grants = length schedule \<and>
         int (length (grants_in_window rl grants)) \<le> L \<and>
         int (length (grants_in_window rl' (grants @ [t]))) \<le> L \<and>
         tokens rl' =
           (if blocked \<noteq> None \<or> I < clock + int gap - lastRefill rl then L else tokens rl) - 1 \<and>
         (0 < tokens rl \<longrightarrow> blocked = None \<and> t = clock + int gap) \<and>
         (tokens rl = 0 \<and> clock + int gap - lastRefill rl \<le> I \<longrightarrow>
            blocked = Some (lastRefill rl + I + 1000 - (clock + int gap)) \<and>
            t = lastRefill rl + I + 1000 + int late \<and>
            tokens rl' = L - 1 \<and> lastRefill rl' = t) \<and>
         (tokens rl = 0 \<and> I < clock + int gap - lastRefill rl \<longrightarrow>
            blocked = None \<and> t = clock + int gap \<and>
            tokens rl' = L - 1 \<and> lastRefill rl' = t)"
proof -
  have inv0: "limiter_inv L I (new_RateLimiter L I t0, t0, [])"
    using L I by (rule limiter_inv_init)
  have inv: "limiter_inv L I (rl, clock, grants)"
    using limiter_inv_run[OF L I M inv0, of schedule] run by simp
  have inv': "limiter_inv L I (rl', t, grants @ [t])"
    using limiter_inv_step[OF inv L I M w] .
  from inv have f: "limit rl = L" "interval rl = I" "0 \<le> tokens rl" "tokens rl \<le> L"
      "lastRefill rl \<le> clock"
    by (simp_all add: limiter_inv_def)
  have len: "length grants = length schedule"
    using run_waits_length[OF run] by simp
  have w1: "int (length (grants_in_window rl grants)) \<le> L"
    using inv by (rule window_le)
  have w2: "int (length (grants_in_window rl' (grants @ [t]))) \<le> L"
    using inv' by (rule window_le)
  have td: "clock + int gap - lastRefill rl \<le> I \<Longrightarrow>
      timer_delay (I - (clock + int gap - lastRefill rl) + 1000)
        = I - (clock + int gap - lastRefill rl) + 1000"
    using f M by (simp add: timer_delay_def TIMEOUT_MAX_def)
  have consume: "tokens rl' =
      (if blocked \<noteq> None \<or> I < clock + int gap - lastRefill rl then L else tokens rl) - 1"
    using w f L by (auto simp: wait_def Let_def split: if_splits)
  have free: "0 < tokens rl \<longrightarrow> blocked = None \<and> t = clock + int gap"
    using w f L by (auto simp: wait_def Let_def split: if_splits)
  have block: "tokens rl = 0 \<and> clock + int gap - lastRefill rl \<le> I \<longrightarrow>
            blocked = Some (lastRefill rl + I + 1000 - (clock + int gap)) \<and>
            t = lastRefill rl + I + 1000 + int late \<and>
            tokens rl' = L - 1 \<and> lastRefill rl' = t"
    using w f L td by (auto simp: wait_def Let_def split: if_splits)
  have lazy: "tokens rl = 0 \<and> I < clock + int gap - lastRefill rl \<longrightarrow>
            blocked = None \<and> t = clock + int gap \<and>
            tokens rl' = L - 1 \<and> lastRefill rl' = t"
    using w f L by (auto simp: wait_def Let_def split: if_splits)
  show ?thesis using len w1 w2 consume free block lazy by blast
qed

lemma gemini_run:
  "run_waits (geminiLimiter 0, 0, []) (replicate 25 (0, 0))
     = (\<lparr>limit = 25, interval = 60000, tokens = 0, lastRefill = 0\<rparr>, 0, replicate 25 0)"
  by (simp add: geminiLimiter_def new_RateLimiter_def wait_def Let_def eval_nat_numeral)

lemma gemini_wait:
  "wait \<lparr>limit = 25, interval = 60000, tokens = 0, lastRefill = 0\<rparr> (0 + int 500) 3
     = (\<lparr>limit = 25, interval = 60000, tokens = 24, lastRefill = 61003\<rparr>, Some 60500, 61003)"
  by (simp add: wait_def Let_def timer_delay_def TIMEOUT_MAX_def)

theorem RateLimiter_guarantees_witness:
  "run_waits (new_RateLimiter 25 60000 0, 0, []) (replicate 25 (0, 0))
     = (\<lparr>limit = 25, interval = 60000, tokens = 0, lastRefill = 0\<rparr>, 0, replicate 25 0) \<and>
   wait \<lparr>limit = 25, interval = 60000, tokens = 0, lastRefill = 0\<rparr> (0 + int 500) 3
     = (\<lparr>limit = 25, interval = 60000, tokens = 24, lastRefill = 61003\<rparr>, Some 60500, 61003) \<and>
   length (grants_in_window \<lparr>limit = 25, interval = 60000, tokens = 0, lastRefill = 0\<rparr>
             (replicate 25 0)) \<le> 25 \<and>
   length (grants_in_window \<lparr>limit = 25, interval = 60000, tokens = 24, lastRefill = 61003\<rparr>
             (replicate 25 0 @ [61003])) \<le> 25"
proof -
  have r: "run_waits (new_RateLimiter 25 60000 0, 0, []) (replicate 25 (0, 0))
     = (\<lparr>limit = 25, interval = 60000, tokens = 0, lastRefill = 0\<rparr>, 0, replicate 25 0)"
    using gemini_run by (simp add: geminiLimiter_def)
  have "(1::int) \<le> 25" "(0::int) \<le> 60000" "(60000::int) + 1000 \<le> TIMEOUT_MAX"
    by (simp_all add: TIMEOUT_MAX_def)
  from RateLimiter_guarantees[OF this r gemini_wait] r gemini_wait
  show ?thesis by simp
qed

subsection \<open>Deduplication\<close>

lemma Map_set_keys: "fst ` set (Map_set k v m) = insert k (fst ` set m)"
proof (induction m)
  case Nil
  then show ?case by simp
next
  case (Cons a m)
  obtain k' v' where a: "a = (k', v')" by (cases a) auto
  show ?case
  proof (cases "k' = k")
    case True
    then show ?thesis using a by simp
  next
    case False
    then show ?thesis using a Cons by (simp add: insert_commute)
  qed
qed

lemma Map_set_distinct: "distinct (map fst m) \<Longrightarrow> distinct (map fst (Map_set k v m))"
proof (induction m)
  case Nil
  then show ?case by simp
next
  case (Cons a m)
  then show ?case using Map_set_keys[of k v m] by (cases a) auto
qed

lemma Map_set_set:
  "distinct (map fst m) \<Longrightarrow>
     set (Map_set k v m) = insert (k, v) {kv \<in> set m. fst kv \<noteq> k}"
proof (induction m)
  case Nil
  then show ?case by simp
next
  case (Cons a m)
  then show ?case by (cases a) (auto simp: rev_image_eqI)
qed

lemma uniquePlatesMap_snoc:
  "uniquePlatesMap (cs @ [x]) =
     (if truthy (no x) then Map_set (no x) x (uniquePlatesMap cs) else uniquePlatesMap cs)"
  by (simp add: uniquePlatesMap_def)

lemma dedup_inv_uniquePlatesMap: "dedup_inv cs (uniquePlatesMap cs)"
proof (induction cs rule: rev_induct)
  case Nil
  then show ?case by (simp add: dedup_inv_def uniquePlatesMap_def)
next
  case (snoc x cs)
  let ?m = "uniquePlatesMap cs"
  from snoc have d: "distinct (map fst ?m)"
    and k: "fst ` set ?m = {k. truthy k \<and> k \<in> no ` set cs}"
    and l: "\<forall>kv \<in> set ?m. no (snd kv) = fst kv \<and> last (filter (\<lambda>q. no q = fst kv) cs) = snd kv"
    by (simp_all add: dedup_inv_def)
  show ?case
  proof (cases "truthy (no x)")
    case False
    then have "uniquePlatesMap (cs @ [x]) = ?m" by (simp add: uniquePlatesMap_snoc)
    moreover have "{k. truthy k \<and> k \<in> no ` set (cs @ [x])} = {k. truthy k \<and> k \<in> no ` set cs}"
      using False by auto
    moreover have "\<forall>kv \<in> set ?m. filter (\<lambda>q. no q = fst kv) (cs @ [x]) = filter (\<lambda>q. no q = fst kv) cs"
    proof
      fix kv assume "kv \<in> set ?m"
      then have "truthy (fst kv)" using k by (metis (mono_tags, lifting) imageI mem_Collect_eq)
      then have "no x \<noteq> fst kv" using False by auto
      then show "filter (\<lambda>q. no q = fst kv) (cs @ [x]) = filter (\<lambda>q. no q = fst kv) cs" by simp
    qed
    ultimately show ?thesis using d k l by (simp add: dedup_inv_def)
  next
    case True
    then have u: "uniquePlatesMap (cs @ [x]) = Map_set (no x) x ?m" by (simp add: uniquePlatesMap_snoc)
    have s: "set (Map_set (no x) x ?m) = insert (no x, x) {kv \<in> set ?m. fst kv \<noteq> no x}"
      using d by (rule Map_set_set)
    have 1: "distinct (map fst (Map_set (no x) x ?m))" using d by (rule Map_set_distinct)
    have 2: "fst ` set (Map_set (no x) x ?m) = {k. truthy k \<and> k \<in> no ` set (cs @ [x])}"
      using k True by (auto simp: Map_set_keys)
    have 3: "\<forall>kv \<in> set (Map_set (no x) x ?m).
               no (snd kv) = fst kv \<and> last (filter (\<lambda>q. no q = fst kv) (cs @ [x])) = snd kv"
      using l by (auto simp: s)
    show ?thesis using u 1 2 3 by (simp add: dedup_inv_def)
  qed
qed

lemma plate_no_to_row: "no p = Some n \<Longrightarrow> plate_no (to_row deptId st pType p) = n"
  by (simp add: to_row_def)

lemma truthy_Some: "truthy k \<longleftrightarrow> (\<exists>n. k = Some n \<and> n \<noteq> [])"
  by (cases k) (auto simp: truthy_def)

lemma distinct_map_the:
  "distinct ks \<Longrightarrow> \<forall>k \<in> set ks. k \<noteq> None \<Longrightarrow> distinct (map the ks)"
proof (induction ks)
  case Nil
  then show ?case by simp
next
  case (Cons k ks)
  have "the k \<notin> the ` set ks"
  proof
    assume "the k \<in> the ` set ks"
    then obtain k' where k': "k' \<in> set ks" "the k = the k'" by blast
    then have "k = k'" using Cons.prems(2) by (cases k; cases k') auto
    then show False using k' Cons.prems(1) by simp
  qed
  then show ?case using Cons by simp
qed

text \<open>
  The rows handed to the staging insert hold every collected plate number once, and each
  row is built from the last collected plate with its number.
\<close>

lemma rows_to_insert_dedup:
  fixes collectedPlates :: "plate list" and deptId pType :: string and st :: station
  defines "rows \<equiv> rows_to_insert deptId st pType collectedPlates"
  shows "distinct (map plate_no rows) \<and>
         set (map plate_no rows) = {n. n \<noteq> [] \<and> Some n \<in> no ` set collectedPlates} \<and>
         (\<forall>r \<in> set rows.
            r = to_row deptId st pType
                  (last (filter (\<lambda>q. no q = Some (plate_no r)) collectedPlates)))"
proof -
  let ?m = "uniquePlatesMap collectedPlates"
  have inv: "dedup_inv collectedPlates ?m" by (rule dedup_inv_uniquePlatesMap)
  then have d: "distinct (map fst ?m)"
    and k: "fst ` set ?m = {k. truthy k \<and> k \<in> no ` set collectedPlates}"
    and l: "\<forall>kv \<in> set ?m. no (snd kv) = fst kv \<and>
              last (filter (\<lambda>q. no q = fst kv) collectedPlates) = snd kv"
    by (simp_all add: dedup_inv_def)
  have some: "\<forall>kv \<in> set ?m. \<exists>n. fst kv = Some n \<and> n \<noteq> []"
  proof
    fix kv assume "kv \<in> set ?m"
    then have "fst kv \<in> {k. truthy k \<and> k \<in> no ` set collectedPlates}" using k by blast
    then show "\<exists>n. fst kv = Some n \<and> n \<noteq> []" by (simp add: truthy_Some)
  qed
  have pn: "\<forall>kv \<in> set ?m. Some (plate_no (to_row deptId st pType (snd kv))) = fst kv"
  proof
    fix kv assume m: "kv \<in> set ?m"
    then obtain n where n: "fst kv = Some n" using some by blast
    then have "no (snd kv) = Some n" using l m by simp
    then show "Some (plate_no (to_row deptId st pType (snd kv))) = fst kv"
      using n by (simp add: plate_no_to_row)
  qed
  have rows: "rows = map (\<lambda>kv. to_row deptId st pType (snd kv)) ?m"
    by (simp add: rows_def rows_to_insert_def finalPlates_def)
  have keys: "map plate_no rows = map the (map fst ?m)"
  proof -
    have "plate_no (to_row deptId st pType (snd kv)) = the (fst kv)" if "kv \<in> set ?m" for kv
    proof -
      have "fst kv = Some (plate_no (to_row deptId st pType (snd kv)))"
        using pn that by simp
      then show ?thesis by simp
    qed
    then show ?thesis by (simp add: rows)
  qed
  have nn: "\<forall>k \<in> set (map fst ?m). k \<noteq> None"
  proof
    fix k assume "k \<in> set (map fst ?m)"
    then obtain kv where "kv \<in> set ?m" "k = fst kv" by auto
    then show "k \<noteq> None" using some by fastforce
  qed
  have 1: "distinct (map plate_no rows)"
    unfolding keys using d nn by (rule distinct_map_the)
  have 2: "set (map plate_no rows) = {n. n \<noteq> [] \<and> Some n \<in> no ` set collectedPlates}"
  proof -
    have "set (map plate_no rows) = the ` (fst ` set ?m)" unfolding keys by (simp add: image_image)
    also have "\<dots> = the ` {k. truthy k \<and> k \<in> no ` set collectedPlates}" using k by simp
    also have "\<dots> = {n. n \<noteq> [] \<and> Some n \<in> no ` set collectedPlates}"
    proof (rule set_eqI)
      fix n
      show "n \<in> the ` {k. truthy k \<and> k \<in> no ` set collectedPlates}
              \<longleftrightarrow> n \<in> {n. n \<noteq> [] \<and> Some n \<in> no ` set collectedPlates}"
      proof
        assume "n \<in> the ` {k. truthy k \<and> k \<in> no ` set collectedPlates}"
        then obtain k where "truthy k" "k \<in> no ` set collectedPlates" "n = the k" by blast
        then show "n \<in> {n. n \<noteq> [] \<and> Some n \<in> no ` set collectedPlates}"
          by (cases k) (simp_all add: truthy_def)
      next
        assume "n \<in> {n. n \<noteq> [] \<and> Some n \<in> no ` set collectedPlates}"
        then have "truthy (Some n)" "Some n \<in> no ` set collectedPlates" "n = the (Some n)"
          by (simp_all add: truthy_def)
        then show "n \<in> the ` {k. truthy k \<and> k \<in> no ` set collectedPlates}" by blast
      qed
    qed
    finally show ?thesis .
  qed
  have 3: "\<forall>r \<in> set rows.
            r = to_row deptId st pType
                  (last (filter (\<lambda>q. no q = Some (plate_no r)) collectedPlates))"
  proof
    fix r assume "r \<in> set rows"
    then obtain kv where kv: "kv \<in> set ?m" "r = to_row deptId st pType (snd kv)"
      using rows by auto
    then have "Some (plate_no r) = fst kv" using pn by simp
    moreover have "last (filter (\<lambda>q. no q = fst kv) collectedPlates) = snd kv"
      using l kv by simp
    ultimately show "r = to_row deptId st pType
                  (last (filter (\<lambda>q. no q = Some (plate_no r)) collectedPlates))"
      using kv by simp
  qed
  show ?thesis using 1 2 3 by blast
qed

text \<open>Integers below \<open>2^53\<close> are doubles.\<close>

lemma bit_length_bound: "m < 2 ^ k \<Longrightarrow> bit_length m \<le> k"
proof (induction k arbitrary: m)
  case 0
  then show ?case by (simp add: bit_length.simps)
next
  case (Suc k)
  show ?case
  proof (cases "m \<le> 0")
    case True
    then show ?thesis by (simp add: bit_length.simps)
  next
    case False
    have "m div 2 < 2 ^ k" using Suc.prems by auto
    then have "bit_length (m div 2) \<le> k" by (rule Suc.IH)
    then show ?thesis using False by (subst bit_length.simps) simp
  qed
qed

lemma to_Number_exact:
  assumes "\<bar>n\<bar> < 2 ^ 53"
  shows "to_Number n = Num n"
proof -
  let ?m = "\<bar>n\<bar>"
  have m: "?m < 2 ^ 53" using assms by simp
  then have sh: "bit_length ?m - 53 = 0" using bit_length_bound[of ?m 53] by simp
  have "(2::int) ^ 53 < 2 ^ 1024" by (rule power_strict_increasing) simp_all
  then have big: "\<not> 2 ^ 1024 \<le> ?m" using m by linarith
  have sg: "sgn n * ?m = n" by (simp add: mult_sgn_abs)
  show ?thesis
    unfolding to_Number_def Let_def sh using big sg by simp
qed

lemma parseInt_examples:
  "parseInt ''10'' = Some (Num 10)" "parseInt ''15'' = Some (Num 15)"
  "parseInt ''20'' = Some (Num 20)" "parseInt ''50000'' = Some (Num 50000)"
  by (simp_all add: parseInt_def Let_def is_space_def is_digit_def digit_val_def
      digits_value_def to_Number_exact)

lemma example_rows:
  "rows_to_insert ''2'' example_station ''g'' example_collected =
     [\<lparr>station_id = ''20'', station_name = ''Taipei'', region_id = ''2'', plate_type = ''g'',
       window_id = ''01'', plate_no = ''A'', price = Num 15, row_status = ''AVAILABLE''\<rparr>,
      \<lparr>station_id = ''20'', station_name = ''Taipei'', region_id = ''2'', plate_type = ''g'',
       window_id = ''01'', plate_no = ''B'', price = Num 20, row_status = ''AVAILABLE''\<rparr>]"
  by (simp add: rows_to_insert_def finalPlates_def uniquePlatesMap_def example_collected_def
      truthy_def to_row_def price_of_def parseInt_examples example_station_def)

subsection \<open>CAPTCHA loops\<close>

lemma captcha_state_emit [simp]:
  "captcha_state_of ok (emit e w) = captcha_step ok (captcha_state_of ok w) e"
  by (simp add: captcha_state_of_def emit_def)

lemma captcha_state_next_tick [simp]:
  "captcha_state_of ok (next_tick w) = captcha_state_of ok w"
  by (simp add: captcha_state_of_def next_tick_def)

lemma clean_answer_AZ09: "list_all is_AZ09 (clean_answer t)"
  by (simp add: clean_answer_def list_all_iff)

lemma solveCaptcha_effect:
  assumes "solveCaptcha env w = (r, w2)"
  shows "events w2 = events w @ [Solve r]"
    and "captchaAttempts (stats w2) = captchaAttempts (stats w) + 1"
    and "stationsFailed (stats w2) = stationsFailed (stats w)"
    and "staging w2 = staging w"
    and "\<forall>c. r = Some c \<longrightarrow> list_all is_AZ09 c"
  using assms clean_answer_AZ09
  by (auto simp: solveCaptcha_def Let_def emit_def next_tick_def split: option.splits if_splits)

lemma solveCaptcha_state:
  assumes "solveCaptcha env w = (r, w2)"
  shows "captcha_state_of ok w2 = captcha_step ok (captcha_state_of ok w) (Solve r)"
  using solveCaptcha_effect(1)[OF assms] by (simp add: captcha_state_of_def)

lemma valid_code_Some: "valid_code r \<Longrightarrow> \<exists>c. r = Some c \<and> length c = 4"
  by (cases r) (auto simp: valid_code_def)

lemma count_solves_simps [simp]:
  "count_solves [] = 0"
  "count_solves (es @ es') = count_solves es + count_solves es'"
  "count_solves (Solve r # es) = Suc (count_solves es)"
  "count_solves (Refresh # es) = count_solves es"
  "count_solves (Submit c # es) = count_solves es"
  "count_solves (Goto # es) = count_solves es"
  "count_solves (Click_next # es) = count_solves es"
  "count_solves (Swap # es) = count_solves es"
  "count_solves (Insert rows err # es) = count_solves es"
  "count_solves (Station_begin i d # es) = count_solves es"
  by (simp_all add: count_solves_def)

lemma count_submits_simps [simp]:
  "count_submits [] = 0"
  "count_submits (es @ es') = count_submits es + count_submits es'"
  "count_submits (Submit c # es) = Suc (count_submits es)"
  "count_submits (Refresh # es) = count_submits es"
  "count_submits (Solve r # es) = count_submits es"
  "count_submits (Goto # es) = count_submits es"
  "count_submits (Click_next # es) = count_submits es"
  "count_submits (Swap # es) = count_submits es"
  "count_submits (Insert rows err # es) = count_submits es"
  "count_submits (Station_begin i d # es) = count_submits es"
  by (simp_all add: count_submits_def)

lemma inserted_simps [simp]:
  "inserted [] = []"
  "inserted (es @ es') = inserted es @ inserted es'"
  "inserted (Insert rows None # es) = rows @ inserted es"
  "inserted (Insert rows (Some m) # es) = inserted es"
  "inserted (Submit c # es) = inserted es"
  "inserted (Refresh # es) = inserted es"
  "inserted (Solve r # es) = inserted es"
  "inserted (Goto # es) = inserted es"
  "inserted (Click_next # es) = inserted es"
  "inserted (Swap # es) = inserted es"
  "inserted (Station_begin i d # es) = inserted es"
  by (simp_all add: inserted_def)

lemma new_events_append: "events w' = events w @ tr \<Longrightarrow> new_events w w' = tr"
  by (simp add: new_events_def)

lemma solve_loop_done: "\<not> k < 5 \<Longrightarrow> solve_loop env a k w = (None, k, w)"
  by (subst solve_loop.simps) simp

text \<open>What one run of the inner loop does.\<close>

lemma solve_loop_facts:
  "solve_loop env a k w = (code, k', w') \<Longrightarrow> k \<le> 5 \<Longrightarrow>
     k \<le> k' \<and> k' \<le> 5 \<and> (code = None \<longrightarrow> k' = 5) \<and>
     (\<forall>c. code = Some c \<longrightarrow> length c = 4 \<and> list_all is_AZ09 c) \<and>
     captchaAttempts (stats w') = captchaAttempts (stats w) + (k' - k) \<and>
     stationsFailed (stats w') = stationsFailed (stats w) \<and>
     staging w' = staging w \<and>
     (\<exists>tr. events w' = events w @ tr \<and> count_solves tr = k' - k \<and> count_submits tr = 0 \<and>
           inserted tr = [])"
proof (induction env a k w arbitrary: code k' w' rule: solve_loop.induct)
  case (1 env a k w)
  show ?case
  proof (cases "k < 5")
    case False
    then have "solve_loop env a k w = (None, k, w)" by (simp add: solve_loop.simps)
    then show ?thesis using "1.prems" False by auto
  next
    case True
    define w1 where "w1 = (if k + 1 > 1 \<or> a > 1 then emit Refresh w else w)"
    obtain rawCode w2 where s: "solveCaptcha env w1 = (rawCode, w2)"
      by (cases "solveCaptcha env w1") auto
    note e = solveCaptcha_effect[OF s]
    have ev1: "\<exists>tr. events w1 = events w @ tr \<and> count_solves tr = 0 \<and> count_submits tr = 0 \<and>
                    inserted tr = []"
      by (cases "k + 1 > 1 \<or> a > 1") (auto simp: w1_def emit_def)
    have fr1: "stats w1 = stats w" "staging w1 = staging w"
      by (simp_all add: w1_def emit_def)
    show ?thesis
    proof (cases "valid_code rawCode")
      case v: True
      then have "solve_loop env a k w = (rawCode, k + 1, w2)"
        using True s by (simp add: solve_loop.simps[of env a k w] w1_def Let_def)
      then have r: "code = rawCode" "k' = k + 1" "w' = w2" using "1.prems" by auto
      obtain c where c: "rawCode = Some c" "length c = 4" using v valid_code_Some by blast
      from ev1 obtain tr where tr: "events w1 = events w @ tr" "count_solves tr = 0"
        "count_submits tr = 0" "inserted tr = []" by blast
      have "events w2 = events w @ (tr @ [Solve rawCode])" using e(1) tr by simp
      moreover have "count_solves (tr @ [Solve rawCode]) = 1" "count_submits (tr @ [Solve rawCode]) = 0"
        "inserted (tr @ [Solve rawCode]) = []"
        using tr by simp_all
      ultimately have "\<exists>tr. events w2 = events w @ tr \<and> count_solves tr = 1 \<and> count_submits tr = 0 \<and>
                         inserted tr = []"
        by blast
      then show ?thesis using r c e fr1 True by auto
    next
      case nv: False
      then have rec: "solve_loop env a k w = solve_loop env a (k + 1) w2"
        using True s by (simp add: solve_loop.simps[of env a k w] w1_def Let_def)
      have ih: "k + 1 \<le> k' \<and> k' \<le> 5 \<and> (code = None \<longrightarrow> k' = 5) \<and>
         (\<forall>c. code = Some c \<longrightarrow> length c = 4 \<and> list_all is_AZ09 c) \<and>
         captchaAttempts (stats w') = captchaAttempts (stats w2) + (k' - (k + 1)) \<and>
         stationsFailed (stats w') = stationsFailed (stats w2) \<and>
         staging w' = staging w2 \<and>
         (\<exists>tr. events w' = events w2 @ tr \<and> count_solves tr = k' - (k + 1) \<and> count_submits tr = 0 \<and>
               inserted tr = [])"
        using "1.IH"[OF True refl w1_def s[symmetric] nv, of code k' w'] "1.prems" rec True
        by (simp add: w1_def)
      then obtain tr2 where tr2: "events w' = events w2 @ tr2" "count_solves tr2 = k' - (k + 1)"
        "count_submits tr2 = 0" "inserted tr2 = []" by blast
      from ev1 obtain tr where tr: "events w1 = events w @ tr" "count_solves tr = 0"
        "count_submits tr = 0" "inserted tr = []" by blast
      have "events w' = events w @ (tr @ [Solve rawCode] @ tr2)" using e(1) tr tr2 by simp
      moreover have "count_solves (tr @ [Solve rawCode] @ tr2) = k' - k"
      proof -
        have "Suc k \<le> k'" using ih by simp
        then show ?thesis using tr tr2 by simp
      qed
      moreover have "count_submits (tr @ [Solve rawCode] @ tr2) = 0"
        "inserted (tr @ [Solve rawCode] @ tr2) = []"
        using tr tr2 by simp_all
      ultimately have "\<exists>tr. events w' = events w @ tr \<and> count_solves tr = k' - k \<and> count_submits tr = 0 \<and>
                         inserted tr = []"
        by blast
      then show ?thesis using ih e fr1 by auto
    qed
  qed
qed

text \<open>The inner loop, read by the checker.\<close>

lemma solve_loop_state:
  "solve_loop env a k w = (code, k', w') \<Longrightarrow> k < 5 \<Longrightarrow>
   (if k = 0 \<and> a \<le> 1 then captcha_state_of valid_code w = Fresh
    else captcha_state_of valid_code w \<in> {Invalid_answer, After_submit}) \<Longrightarrow>
   captcha_state_of valid_code w' =
     (case code of Some c \<Rightarrow> Candidate c | None \<Rightarrow> Invalid_answer)"
proof (induction env a k w arbitrary: code k' w' rule: solve_loop.induct)
  case (1 env a k w)
  have True: "k < 5" by fact
  define w1 where "w1 = (if k + 1 > 1 \<or> a > 1 then emit Refresh w else w)"
  obtain rawCode w2 where s: "solveCaptcha env w1 = (rawCode, w2)"
    by (cases "solveCaptcha env w1") auto
  have st1: "captcha_state_of valid_code w1 \<in> {Fresh, Refreshed}"
    using "1.prems"(3) by (auto simp: w1_def split: if_splits)
  have st2: "captcha_state_of valid_code w2 =
      (if valid_code rawCode then Candidate (case rawCode of None \<Rightarrow> [] | Some c \<Rightarrow> c)
       else Invalid_answer)"
    using st1 solveCaptcha_state[OF s, of valid_code] by auto
  show ?case
  proof (cases "valid_code rawCode")
    case v: True
    then have "solve_loop env a k w = (rawCode, k + 1, w2)"
      using True s by (simp add: solve_loop.simps[of env a k w] w1_def Let_def)
    then have r: "code = rawCode" "w' = w2" using "1.prems" by auto
    obtain c where c: "rawCode = Some c" using v valid_code_Some by blast
    show ?thesis using r c st2 v by simp
  next
    case nv: False
    then have rec: "solve_loop env a k w = solve_loop env a (k + 1) w2"
      using True s by (simp add: solve_loop.simps[of env a k w] w1_def Let_def)
    show ?thesis
    proof (cases "k + 1 < 5")
      case True
      have pre: "if k + 1 = 0 \<and> a \<le> 1 then captcha_state_of valid_code w2 = Fresh
                 else captcha_state_of valid_code w2 \<in> {Invalid_answer, After_submit}"
        using st2 nv by simp
      show ?thesis
        using "1.IH"[OF \<open>k < 5\<close> refl w1_def s[symmetric] nv _ True pre, of code k' w']
          "1.prems"(1) rec by simp
    next
      case False
      then have "solve_loop env a (k + 1) w2 = (None, k + 1, w2)"
        by (rule solve_loop_done)
      then have "code = None" "w' = w2" using rec "1.prems"(1) by auto
      then show ?thesis using st2 nv by simp
    qed
  qed
qed

lemma count_submits_none: "count_submits tr = 0 \<Longrightarrow> Submit c \<notin> set tr"
  by (induction tr) (auto simp: count_submits_def split: if_splits)

lemma query_loop_done: "\<not> a < 10 \<Longrightarrow> query_loop env a r w = (Inr False, a, r, w)"
  by (subst query_loop.simps) (simp add: maxQueryAttempts_def)

text \<open>One round of the outer loop, by the answer of the inner loop and of the portal.\<close>

lemma query_loop_no_code:
  "a < 10 \<Longrightarrow> solve_loop env (a + 1) 0 w = (None, k, w1) \<Longrightarrow>
     query_loop env a r w = query_loop env (a + 1) (if a + 1 > 1 then r + 1 else r) w1"
  by (subst query_loop.simps) (simp add: maxQueryAttempts_def Let_def)

lemma query_loop_type_fault:
  "a < 10 \<Longrightarrow> solve_loop env (a + 1) 0 w = (Some c, k, w1) \<Longrightarrow>
   submission env (tick w1) = Type_fault m \<Longrightarrow>
     query_loop env a r w =
       (Inl (Error m), a + 1, (if a + 1 > 1 then r + 1 else r), next_tick w1)"
  by (subst query_loop.simps) (simp add: maxQueryAttempts_def Let_def)

lemma query_loop_fault:
  "a < 10 \<Longrightarrow> solve_loop env (a + 1) 0 w = (Some c, k, w1) \<Longrightarrow>
   submission env (tick w1) = Submit_fault m \<Longrightarrow>
     query_loop env a r w =
       (Inl (Error m), a + 1, (if a + 1 > 1 then r + 1 else r), emit (Submit c) (next_tick w1))"
  by (subst query_loop.simps) (simp add: maxQueryAttempts_def Let_def)

lemma query_loop_accepted:
  "a < 10 \<Longrightarrow> solve_loop env (a + 1) 0 w = (Some c, k, w1) \<Longrightarrow>
   submission env (tick w1) = Submitted al rd \<Longrightarrow> rd \<and> \<not> truthy al \<Longrightarrow>
     query_loop env a r w =
       (Inr True, a + 1, (if a + 1 > 1 then r + 1 else r), emit (Submit c) (next_tick w1))"
  by (subst query_loop.simps) (simp add: maxQueryAttempts_def Let_def)

lemma query_loop_rejected:
  "a < 10 \<Longrightarrow> solve_loop env (a + 1) 0 w = (Some c, k, w1) \<Longrightarrow>
   submission env (tick w1) = Submitted al rd \<Longrightarrow> \<not> (rd \<and> \<not> truthy al) \<Longrightarrow>
     query_loop env a r w =
       query_loop env (a + 1) (if a + 1 > 1 then r + 1 else r) (emit (Submit c) (next_tick w1))"
  by (subst query_loop.simps) (auto simp: maxQueryAttempts_def Let_def)

lemma query_post_chain:
  assumes inner: "solve_loop env (a + 1) 0 w = (code, k, w1)"
    and mid: "events w2 = events w1 @ sub" "stats w2 = stats w1" "staging w2 = staging w1"
      "sub = [] \<or> (\<exists>c. code = Some c \<and> sub = [Submit c])"
    and rest: "query_post (a + 1) w2 res a' w'"
    and a: "a < 10"
  shows "query_post a w res a' w'"
proof -
  from solve_loop_facts[OF inner] obtain tr1 where
    f: "k \<le> 5" "\<forall>c. code = Some c \<longrightarrow> length c = 4 \<and> list_all is_AZ09 c"
       "captchaAttempts (stats w1) = captchaAttempts (stats w) + k"
       "stationsFailed (stats w1) = stationsFailed (stats w)" "staging w1 = staging w"
       "events w1 = events w @ tr1" "count_solves tr1 = k" "count_submits tr1 = 0"
       "inserted tr1 = []"
    by auto
  from rest obtain tr2 where
    g: "a + 1 \<le> a'" "a' \<le> 10" "res = Inr False \<longrightarrow> a' = 10"
       "captchaAttempts (stats w') \<le> captchaAttempts (stats w2) + 5 * (a' - (a + 1))"
       "stationsFailed (stats w') = stationsFailed (stats w2)" "staging w' = staging w2"
       "events w' = events w2 @ tr2" "count_solves tr2 \<le> 5 * (a' - (a + 1))"
       "count_submits tr2 \<le> a' - (a + 1)"
       "\<forall>c. Submit c \<in> set tr2 \<longrightarrow> length c = 4 \<and> list_all is_AZ09 c"
       "inserted tr2 = []"
    by (auto simp: query_post_def)
  let ?tr = "tr1 @ sub @ tr2"
  have e: "events w' = events w @ ?tr" using f(6) mid(1) g(7) by simp
  have subc: "count_solves sub = 0" "count_submits sub \<le> 1" "inserted sub = []"
    using mid(4) by auto
  have s4: "inserted ?tr = []" using f(9) g(11) subc(3) by simp
  have s1: "count_solves ?tr \<le> 5 * (a' - a)" using f(1,7) g(1,8) subc by simp
  have s2: "count_submits ?tr \<le> a' - a" using f(8) g(1,9) subc by simp
  have s3: "\<forall>c. Submit c \<in> set ?tr \<longrightarrow> length c = 4 \<and> list_all is_AZ09 c"
    using count_submits_none[OF f(8)] mid(4) f(2) g(10) by auto
  have c: "captchaAttempts (stats w') \<le> captchaAttempts (stats w) + 5 * (a' - a)"
    using f(1,3) g(1,4) mid(2) by simp
  show ?thesis
    unfolding query_post_def using e s1 s2 s3 s4 c g(1,2,3,5,6) f(4,5) mid(2,3) by auto
qed

lemma query_post_refl: "a \<le> 10 \<Longrightarrow> res \<noteq> Inr False \<or> a = 10 \<Longrightarrow> query_post a w res a w"
  by (auto simp: query_post_def)

lemma query_loop_facts:
  "query_loop env a r w = (res, a', r', w') \<Longrightarrow> a \<le> 10 \<Longrightarrow> query_post a w res a' w'"
proof (induction "10 - a" arbitrary: a r w)
  case 0
  then have "a = 10" by simp
  then have "query_loop env a r w = (Inr False, a, r, w)" by (simp add: query_loop_done)
  then show ?case using "0.prems" \<open>a = 10\<close> by (auto intro: query_post_refl)
next
  case (Suc n)
  then have a: "a < 10" by simp
  let ?r1 = "if a + 1 > 1 then r + 1 else r"
  obtain code k w1 where inner: "solve_loop env (a + 1) 0 w = (code, k, w1)"
    by (cases "solve_loop env (a + 1) 0 w") auto
  have ih: "\<And>w2. query_loop env (a + 1) ?r1 w2 = (res, a', r', w') \<Longrightarrow> query_post (a + 1) w2 res a' w'"
    using Suc.hyps(1)[of "a + 1"] Suc.hyps(2) a by simp
  show ?case
  proof (cases code)
    case None
    then have "query_loop env (a + 1) ?r1 w1 = (res, a', r', w')"
      using query_loop_no_code[OF a, of env w k w1 r] inner Suc.prems(1) by simp
    then have "query_post (a + 1) w1 res a' w'" by (rule ih)
    then show ?thesis using query_post_chain[OF inner, of w1 "[]"] a by simp
  next
    case (Some c)
    let ?w2 = "emit (Submit c) (next_tick w1)"
    have mid: "events ?w2 = events w1 @ [Submit c]" "stats ?w2 = stats w1" "staging ?w2 = staging w1"
      by (simp_all add: emit_def next_tick_def)
    have in': "solve_loop env (a + 1) 0 w = (Some c, k, w1)" using inner Some by simp
    show ?thesis
    proof (cases "submission env (tick w1)")
      case (Type_fault m)
      let ?w0 = "next_tick w1"
      have mid0: "events ?w0 = events w1 @ []" "stats ?w0 = stats w1" "staging ?w0 = staging w1"
        by (simp_all add: next_tick_def)
      have "(res, a', r', w') = (Inl (Error m), a + 1, ?r1, ?w0)"
        using query_loop_type_fault[OF a in' Type_fault, of r] Suc.prems(1) by simp
      then have "query_post (a + 1) ?w0 res a' w'" using a by (auto intro: query_post_refl)
      then show ?thesis using query_post_chain[OF inner mid0] a by simp
    next
      case (Submit_fault m)
      then have "(res, a', r', w') = (Inl (Error m), a + 1, ?r1, ?w2)"
        using query_loop_fault[OF a in', of m r] Suc.prems(1) by simp
      then have "query_post (a + 1) ?w2 res a' w'" using a by (auto intro: query_post_refl)
      then show ?thesis using query_post_chain[OF inner mid(1,2,3)] Some a by simp
    next
      case (Submitted al rd)
      show ?thesis
      proof (cases "rd \<and> \<not> truthy al")
        case True
        then have "(res, a', r', w') = (Inr True, a + 1, ?r1, ?w2)"
          using query_loop_accepted[OF a in' Submitted, of r] Suc.prems(1) by simp
        then have "query_post (a + 1) ?w2 res a' w'" using a by (auto intro: query_post_refl)
        then show ?thesis using query_post_chain[OF inner mid(1,2,3)] Some a by simp
      next
        case False
        then have "query_loop env (a + 1) ?r1 ?w2 = (res, a', r', w')"
          using query_loop_rejected[OF a in' Submitted, of r] Suc.prems(1) by simp
        then have "query_post (a + 1) ?w2 res a' w'" by (rule ih)
        then show ?thesis using query_post_chain[OF inner mid(1,2,3)] Some a by simp
      qed
    qed
  qed
qed

text \<open>The outer loop, read by the checker.\<close>

lemma query_loop_state:
  "query_loop env a r w = (res, a', r', w') \<Longrightarrow> a < 10 \<Longrightarrow>
   (if a = 0 then captcha_state_of valid_code w = Fresh
    else captcha_state_of valid_code w \<in> {Invalid_answer, After_submit}) \<Longrightarrow>
   in_step (captcha_state_of valid_code w') (isl res) \<and>
   (captcha_state_of valid_code w' = Invalid_answer \<longrightarrow> res = Inr False \<and> a' = 10)"
proof (induction "10 - a" arbitrary: a r w)
  case 0
  then show ?case by simp
next
  case (Suc n)
  have a: "a < 10" by fact
  let ?r1 = "if a + 1 > 1 then r + 1 else r"
  obtain code k w1 where inner: "solve_loop env (a + 1) 0 w = (code, k, w1)"
    by (cases "solve_loop env (a + 1) 0 w") auto
  have pre: "if (0::nat) = 0 \<and> a + 1 \<le> 1 then captcha_state_of valid_code w = Fresh
             else captcha_state_of valid_code w \<in> {Invalid_answer, After_submit}"
    using Suc.prems(3) by (cases "a = 0") auto
  have st1: "captcha_state_of valid_code w1 =
               (case code of Some c \<Rightarrow> Candidate c | None \<Rightarrow> Invalid_answer)"
    using solve_loop_state[OF inner _ pre] by simp
  have tail: "in_step (captcha_state_of valid_code w') (isl res) \<and>
              (captcha_state_of valid_code w' = Invalid_answer \<longrightarrow> res = Inr False \<and> a' = 10)"
    if q: "query_loop env (a + 1) ?r1 w2 = (res, a', r', w')"
      and s: "captcha_state_of valid_code w2 \<in> {Invalid_answer, After_submit}" for w2
  proof (cases "a + 1 < 10")
    case True
    have "n = 10 - (a + 1)" using Suc.hyps(2) by simp
    then show ?thesis using Suc.hyps(1)[OF _ q True] s by simp
  next
    case False
    then have "query_loop env (a + 1) ?r1 w2 = (Inr False, a + 1, ?r1, w2)"
      by (rule query_loop_done)
    then have "res = Inr False" "a' = a + 1" "w' = w2" using q by auto
    then show ?thesis using s False a by auto
  qed
  show ?case
  proof (cases code)
    case None
    then have "query_loop env (a + 1) ?r1 w1 = (res, a', r', w')"
      using query_loop_no_code[OF a, of env w k w1 r] inner Suc.prems(1) by simp
    then show ?thesis using tail st1 None by simp
  next
    case (Some c)
    let ?w2 = "emit (Submit c) (next_tick w1)"
    have st2: "captcha_state_of valid_code ?w2 = After_submit" using st1 Some by simp
    have st0: "captcha_state_of valid_code (next_tick w1) = Candidate c" using st1 Some by simp
    have in': "solve_loop env (a + 1) 0 w = (Some c, k, w1)" using inner Some by simp
    show ?thesis
    proof (cases "submission env (tick w1)")
      case (Type_fault m)
      then have "(res, a', r', w') = (Inl (Error m), a + 1, ?r1, next_tick w1)"
        using query_loop_type_fault[OF a in' Type_fault, of r] Suc.prems(1) by simp
      then show ?thesis using st0 by simp
    next
      case (Submit_fault m)
      then have "(res, a', r', w') = (Inl (Error m), a + 1, ?r1, ?w2)"
        using query_loop_fault[OF a in', of m r] Suc.prems(1) by simp
      then show ?thesis using st2 by simp
    next
      case (Submitted al rd)
      show ?thesis
      proof (cases "rd \<and> \<not> truthy al")
        case True
        then have "(res, a', r', w') = (Inr True, a + 1, ?r1, ?w2)"
          using query_loop_accepted[OF a in' Submitted, of r] Suc.prems(1) by simp
        then show ?thesis using st2 by simp
      next
        case False
        then have "query_loop env (a + 1) ?r1 ?w2 = (res, a', r', w')"
          using query_loop_rejected[OF a in' Submitted, of r] Suc.prems(1) by simp
        then show ?thesis using tail st2 by simp
      qed
    qed
  qed
qed

subsection \<open>The loop of the OCR variant\<close>

lemma ocr_post_refl: "a \<le> 5 \<Longrightarrow> res \<noteq> Inr False \<or> a = 5 \<Longrightarrow> ocr_post a w res a w"
  by (auto simp: ocr_post_def)

lemma ocr_post_chain:
  assumes "events w2 = events w @ pre" "count_solves pre \<le> 1" "count_submits pre \<le> 1"
    and "\<forall>c. Submit c \<in> set pre \<longrightarrow> 4 \<le> length c \<and> list_all is_AZ09 c"
    and "ocr_post (a + 1) w2 res a' w'"
  shows "ocr_post a w res a' w'"
proof -
  from assms(5) obtain tr where
    g: "a + 1 \<le> a'" "a' \<le> 5" "res = Inr False \<longrightarrow> a' = 5" "events w' = events w2 @ tr"
       "count_solves tr \<le> a' - (a + 1)" "count_submits tr \<le> a' - (a + 1)"
       "\<forall>c. Submit c \<in> set tr \<longrightarrow> 4 \<le> length c \<and> list_all is_AZ09 c"
    by (auto simp: ocr_post_def)
  have 1: "events w' = events w @ (pre @ tr)" using assms(1) g(4) by simp
  have 2: "count_solves (pre @ tr) \<le> a' - a" using assms(2) g(1,5) by simp
  have 3: "count_submits (pre @ tr) \<le> a' - a" using assms(3) g(1,6) by simp
  have 4: "\<forall>c. Submit c \<in> set (pre @ tr) \<longrightarrow> 4 \<le> length c \<and> list_all is_AZ09 c"
    using assms(4) g(7) by auto
  have "\<exists>tr. events w' = events w @ tr \<and> count_solves tr \<le> a' - a \<and>
            count_submits tr \<le> a' - a \<and>
            (\<forall>c. Submit c \<in> set tr \<longrightarrow> 4 \<le> length c \<and> list_all is_AZ09 c)"
    using 1 2 3 4 by blast
  then show ?thesis unfolding ocr_post_def using g(1,2,3) by simp
qed

lemma ocr_query_loop_done: "\<not> a < 5 \<Longrightarrow> ocr_query_loop env a w = (Inr False, a, w)"
  by (subst ocr_query_loop.simps) simp

lemma ocr_query_loop_step:
  assumes "a < 5"
    and "(if a + 1 > 1 then (click_error env (tick w), emit Refresh (next_tick w))
          else (None, w)) = (ce, w1)"
    and "ocr_solveCaptcha env w1 = (code, w2)"
  shows "ocr_query_loop env a w =
     (case ce of Some m \<Rightarrow> (Inl (Error m), a + 1, w1)
      | None \<Rightarrow>
         if ocr_skips code then ocr_query_loop env (a + 1) w2
         else (case submission env (tick w2) of
                 Type_fault m \<Rightarrow> (Inl (Error m), a + 1, next_tick w2)
               | Submit_fault m \<Rightarrow>
                   (Inl (Error m), a + 1,
                    emit (Submit (case code of None \<Rightarrow> [] | Some c \<Rightarrow> c)) (next_tick w2))
               | Submitted al rd \<Rightarrow>
                   if rd \<and> \<not> truthy al
                   then (Inr True, a + 1,
                         emit (Submit (case code of None \<Rightarrow> [] | Some c \<Rightarrow> c)) (next_tick w2))
                   else ocr_query_loop env (a + 1)
                         (emit (Submit (case code of None \<Rightarrow> [] | Some c \<Rightarrow> c)) (next_tick w2))))"
proof (cases ce)
  case None
  show ?thesis
    apply (subst ocr_query_loop.simps)
    apply (simp only: assms(1) if_True Let_def assms(2) None prod.case option.case assms(3))
    done
next
  case (Some m)
  show ?thesis
    apply (subst ocr_query_loop.simps)
    apply (simp only: assms(1) if_True Let_def assms(2) Some prod.case option.case)
    done
qed

lemma ocr_solveCaptcha_effect:
  assumes "ocr_solveCaptcha env w = (code, w2)"
  shows "events w2 = events w @ [Solve code]"
    and "\<forall>c. code = Some c \<longrightarrow> list_all is_AZ09 c"
  using assms clean_answer_AZ09
  by (auto simp: ocr_solveCaptcha_def Let_def emit_def next_tick_def)

lemma ocr_accepts_Some: "\<not> ocr_skips code \<Longrightarrow> \<exists>c. code = Some c \<and> 4 \<le> length c"
  by (cases code) (auto simp: ocr_skips_def)

lemma ocr_query_loop_facts:
  "ocr_query_loop env a w = (res, a', w') \<Longrightarrow> a \<le> 5 \<Longrightarrow> ocr_post a w res a' w'"
proof (induction "5 - a" arbitrary: a w)
  case 0
  then have "a = 5" by simp
  then have "ocr_query_loop env a w = (Inr False, a, w)" by (simp add: ocr_query_loop_done)
  then show ?case using "0.prems" \<open>a = 5\<close> by (auto intro: ocr_post_refl)
next
  case (Suc n)
  then have a: "a < 5" by simp
  have ih: "\<And>w2. ocr_query_loop env (a + 1) w2 = (res, a', w') \<Longrightarrow> ocr_post (a + 1) w2 res a' w'"
    using Suc.hyps(1)[of "a + 1"] Suc.hyps(2) a by simp
  have stop: "\<And>w2 e. (res, a', w') = (e, a + 1, w2) \<Longrightarrow> e \<noteq> Inr False
                \<Longrightarrow> ocr_post (a + 1) w2 res a' w'"
    using a by (auto intro: ocr_post_refl)
  define cw where "cw = (if a + 1 > 1 then (click_error env (tick w), emit Refresh (next_tick w))
                         else (None, w))"
  obtain ce w1 where cw': "cw = (ce, w1)" by (cases cw) auto
  have ev1: "\<exists>p. events w1 = events w @ p \<and> count_solves p = 0 \<and> count_submits p = 0"
    using cw' by (auto simp: cw_def emit_def next_tick_def split: if_splits)
  then obtain p1 where p1: "events w1 = events w @ p1" "count_solves p1 = 0" "count_submits p1 = 0"
    by blast
  have n1: "\<forall>c. Submit c \<notin> set p1" using count_submits_none[OF p1(3)] by simp
  obtain code w2 where sc: "ocr_solveCaptcha env w1 = (code, w2)"
    by (cases "ocr_solveCaptcha env w1") auto
  note sce = ocr_solveCaptcha_effect[OF sc]
  let ?c = "case code of None \<Rightarrow> [] | Some c \<Rightarrow> c"
  let ?w3 = "emit (Submit ?c) (next_tick w2)"
  have ev3: "events ?w3 = events w2 @ [Submit ?c]" by (simp add: emit_def next_tick_def)
  have unfold: "ocr_query_loop env a w =
     (case ce of Some m \<Rightarrow> (Inl (Error m), a + 1, w1)
      | None \<Rightarrow>
         if ocr_skips code then ocr_query_loop env (a + 1) w2
         else (case submission env (tick w2) of
                 Type_fault m \<Rightarrow> (Inl (Error m), a + 1, next_tick w2)
               | Submit_fault m \<Rightarrow> (Inl (Error m), a + 1, ?w3)
               | Submitted al rd \<Rightarrow>
                   if rd \<and> \<not> truthy al then (Inr True, a + 1, ?w3)
                   else ocr_query_loop env (a + 1) ?w3))"
    using ocr_query_loop_step[OF a cw'[unfolded cw_def] sc] .
  have e1: "count_solves p1 \<le> 1" "count_submits p1 \<le> 1"
    "\<forall>c. Submit c \<in> set p1 \<longrightarrow> 4 \<le> length c \<and> list_all is_AZ09 c"
    using p1 n1 by simp_all
  have e2: "events w2 = events w @ (p1 @ [Solve code])" "count_solves (p1 @ [Solve code]) \<le> 1"
    "count_submits (p1 @ [Solve code]) \<le> 1"
    "\<forall>c. Submit c \<in> set (p1 @ [Solve code]) \<longrightarrow> 4 \<le> length c \<and> list_all is_AZ09 c"
    using p1 n1 sce(1) by simp_all
  have e2': "events (next_tick w2) = events w @ (p1 @ [Solve code])"
    using e2(1) by (simp add: next_tick_def)
  have e3: "events ?w3 = events w @ (p1 @ [Solve code, Submit ?c])"
    "count_solves (p1 @ [Solve code, Submit ?c]) \<le> 1"
    "count_submits (p1 @ [Solve code, Submit ?c]) \<le> 1"
    using p1 sce(1) ev3 by simp_all
  have e3': "\<forall>c. Submit c \<in> set (p1 @ [Solve code, Submit ?c])
                  \<longrightarrow> 4 \<le> length c \<and> list_all is_AZ09 c"
    if ns: "\<not> ocr_skips code"
  proof -
    obtain c where c: "code = Some c" "4 \<le> length c" using ocr_accepts_Some[OF ns] by blast
    then have "list_all is_AZ09 c" using sce(2) by simp
    then show ?thesis using c n1 by simp
  qed
  show ?case
  proof (cases ce)
    case (Some m)
    then have "(res, a', w') = (Inl (Error m), a + 1, w1)" using unfold Suc.prems(1) by simp
    then have "ocr_post (a + 1) w1 res a' w'" by (rule stop) simp
    then show ?thesis by (rule ocr_post_chain[OF p1(1) e1])
  next
    case None
    show ?thesis
    proof (cases "ocr_skips code")
      case True
      then have "ocr_query_loop env (a + 1) w2 = (res, a', w')"
        using unfold None Suc.prems(1) by simp
      then have "ocr_post (a + 1) w2 res a' w'" by (rule ih)
      then show ?thesis by (rule ocr_post_chain[OF e2])
    next
      case False
      note e4 = e3'[OF False]
      show ?thesis
      proof (cases "submission env (tick w2)")
        case (Type_fault m)
        then have "(res, a', w') = (Inl (Error m), a + 1, next_tick w2)"
          using unfold None False Suc.prems(1) by simp
        then have "ocr_post (a + 1) (next_tick w2) res a' w'" by (rule stop) simp
        then show ?thesis by (rule ocr_post_chain[OF e2' e2(2,3,4)])
      next
        case (Submit_fault m)
        then have "(res, a', w') = (Inl (Error m), a + 1, ?w3)"
          using unfold None False Suc.prems(1) by simp
        then have "ocr_post (a + 1) ?w3 res a' w'" by (rule stop) simp
        then show ?thesis by (rule ocr_post_chain[OF e3 e4])
      next
        case (Submitted al rd)
        show ?thesis
        proof (cases "rd \<and> \<not> truthy al")
          case True
          then have "(res, a', w') = (Inr True, a + 1, ?w3)"
            using unfold None False Submitted Suc.prems(1) by simp
          then have "ocr_post (a + 1) ?w3 res a' w'" by (rule stop) simp
          then show ?thesis by (rule ocr_post_chain[OF e3 e4])
        next
          case nacc: False
          then have "ocr_query_loop env (a + 1) ?w3 = (res, a', w')"
            using unfold None False Submitted Suc.prems(1) by auto
          then have "ocr_post (a + 1) ?w3 res a' w'" by (rule ih)
          then show ?thesis by (rule ocr_post_chain[OF e3 e4])
        qed
      qed
    qed
  qed
qed

text \<open>The loop of the OCR variant, read by the checker.\<close>

lemma ocr_query_loop_state:
  "ocr_query_loop env a w = (res, a', w') \<Longrightarrow> a < 5 \<Longrightarrow>
   (if a = 0 then captcha_state_of ocr_accepts w = Fresh
    else captcha_state_of ocr_accepts w \<in> {Invalid_answer, After_submit}) \<Longrightarrow>
   in_step (captcha_state_of ocr_accepts w') (isl res) \<and>
   (captcha_state_of ocr_accepts w' = Invalid_answer \<longrightarrow> res = Inr False \<and> a' = 5)"
proof (induction "5 - a" arbitrary: a w)
  case 0
  then show ?case by simp
next
  case (Suc n)
  have a: "a < 5" by fact
  define cw where "cw = (if a + 1 > 1 then (click_error env (tick w), emit Refresh (next_tick w))
                         else (None, w))"
  obtain ce w1 where cw': "cw = (ce, w1)" by (cases cw) auto
  have st1: "captcha_state_of ocr_accepts w1 \<in> {Fresh, Refreshed}"
    using cw' Suc.prems(3) by (auto simp: cw_def split: if_splits)
  obtain code w2 where sc: "ocr_solveCaptcha env w1 = (code, w2)"
    by (cases "ocr_solveCaptcha env w1") auto
  let ?c = "case code of None \<Rightarrow> [] | Some c \<Rightarrow> c"
  let ?w3 = "emit (Submit ?c) (next_tick w2)"
  have "w2 = emit (Solve code) (next_tick w1)"
    using sc by (auto simp: ocr_solveCaptcha_def Let_def)
  then have st2: "captcha_state_of ocr_accepts w2 =
      (if ocr_accepts code then Candidate ?c else Invalid_answer)"
    using st1 by auto
  have unfold: "ocr_query_loop env a w =
     (case ce of Some m \<Rightarrow> (Inl (Error m), a + 1, w1)
      | None \<Rightarrow>
         if ocr_skips code then ocr_query_loop env (a + 1) w2
         else (case submission env (tick w2) of
                 Type_fault m \<Rightarrow> (Inl (Error m), a + 1, next_tick w2)
               | Submit_fault m \<Rightarrow> (Inl (Error m), a + 1, ?w3)
               | Submitted al rd \<Rightarrow>
                   if rd \<and> \<not> truthy al then (Inr True, a + 1, ?w3)
                   else ocr_query_loop env (a + 1) ?w3))"
    using ocr_query_loop_step[OF a cw'[unfolded cw_def] sc] .
  have tail: "in_step (captcha_state_of ocr_accepts w') (isl res) \<and>
              (captcha_state_of ocr_accepts w' = Invalid_answer \<longrightarrow> res = Inr False \<and> a' = 5)"
    if q: "ocr_query_loop env (a + 1) v = (res, a', w')"
      and s: "captcha_state_of ocr_accepts v \<in> {Invalid_answer, After_submit}" for v
  proof (cases "a + 1 < 5")
    case True
    have "n = 5 - (a + 1)" using Suc.hyps(2) by simp
    then show ?thesis using Suc.hyps(1)[OF _ q True] s by simp
  next
    case False
    then have "ocr_query_loop env (a + 1) v = (Inr False, a + 1, v)"
      by (rule ocr_query_loop_done)
    then have "res = Inr False" "a' = a + 1" "w' = v" using q by auto
    then show ?thesis using s False a by auto
  qed
  show ?case
  proof (cases ce)
    case (Some m)
    then have r: "(res, a', w') = (Inl (Error m), a + 1, w1)" using unfold Suc.prems(1) by simp
    have "a \<noteq> 0" using cw' Some by (auto simp: cw_def split: if_splits)
    then have "captcha_state_of ocr_accepts w1 = Refreshed"
      using cw' Suc.prems(3) by (auto simp: cw_def split: if_splits)
    then show ?thesis using r by simp
  next
    case None
    show ?thesis
    proof (cases "ocr_skips code")
      case True
      then have "ocr_query_loop env (a + 1) w2 = (res, a', w')"
        using unfold None Suc.prems(1) by simp
      moreover have "captcha_state_of ocr_accepts w2 = Invalid_answer"
        using st2 True by (simp add: ocr_accepts_def)
      ultimately show ?thesis using tail by simp
    next
      case False
      then have st0: "captcha_state_of ocr_accepts (next_tick w2) = Candidate ?c"
        using st2 by (simp add: ocr_accepts_def)
      then have st3: "captcha_state_of ocr_accepts ?w3 = After_submit" by simp
      show ?thesis
      proof (cases "submission env (tick w2)")
        case (Type_fault m)
        then have "(res, a', w') = (Inl (Error m), a + 1, next_tick w2)"
          using unfold None False Suc.prems(1) by simp
        then show ?thesis using st0 by simp
      next
        case (Submit_fault m)
        then have "(res, a', w') = (Inl (Error m), a + 1, ?w3)"
          using unfold None False Suc.prems(1) by simp
        then show ?thesis using st3 by simp
      next
        case (Submitted al rd)
        show ?thesis
        proof (cases "rd \<and> \<not> truthy al")
          case True
          then have "(res, a', w') = (Inr True, a + 1, ?w3)"
            using unfold None False Submitted Suc.prems(1) by simp
          then show ?thesis using st3 by simp
        next
          case nacc: False
          then have "ocr_query_loop env (a + 1) ?w3 = (res, a', w')"
            using unfold None False Submitted Suc.prems(1) by auto
          then show ?thesis using tail st3 by simp
        qed
      qed
    qed
  qed
qed

lemma navigate_ok:
  "goto_error env (tick w) = None \<Longrightarrow> navigate env 0 w = (Inr (), emit Goto (next_tick w))"
  by (subst navigate.simps) (simp add: Let_def)

lemma process_type_failed:
  assumes "navigate env 0 w0 = (Inr u, wn)" "form env (tick wn) = Type_selected"
    and "query_loop env 0 retries (next_tick wn) = (Inr False, attempts', retries', w')"
  shows "process_type fuel env deptId st pType (platesFound, retries, st_status) w0 =
           Some (Inr (platesFound, retries', ''FAILED''),
                 addError (st_name st) ''Max attempts reached or navigation failed.''
                   (w'\<lparr>stats := (stats w')\<lparr>stationsFailed := stationsFailed (stats w') + 1\<rparr>\<rparr>))"
  using assms by (simp add: process_type_def Let_def)

text \<open>
  Claim C4. One outer attempt calls the solver at most five times (the statistics and the
  events agree on the number). A query makes at most ten outer attempts, hence at most
  ten submissions and fifty solver calls, and when it ends without success all ten were
  used. The round of the plate type then marks the station \<open>FAILED\<close>, counts one failed
  station and adds no further event: the query is not tried again. The loop of the OCR
  variant makes at most five attempts with one solver call each.
\<close>

theorem retry_budgets:
  "(solve_loop env attempts 0 w = (code, k, w1) \<longrightarrow>
      k \<le> 5 \<and> captchaAttempts (stats w1) = captchaAttempts (stats w) + k \<and>
      count_solves (new_events w w1) = k) \<and>
   (query_loop env 0 retries w = (res, attempts', retries', w') \<longrightarrow>
      attempts' \<le> 10 \<and> count_submits (new_events w w') \<le> attempts' \<and>
      count_solves (new_events w w') \<le> 5 * attempts' \<and>
      captchaAttempts (stats w') \<le> captchaAttempts (stats w) + 5 * attempts' \<and>
      (res = Inr False \<longrightarrow> attempts' = 10)) \<and>
   (navigate env 0 w0 = (Inr u, wn) \<and> form env (tick wn) = Type_selected \<and>
    query_loop env 0 retries (next_tick wn) = (Inr False, attempts', retries', w') \<longrightarrow>
      (\<exists>wf. process_type fuel env deptId st pType (platesFound, retries, st_status) w0
               = Some (Inr (platesFound, retries', ''FAILED''), wf) \<and>
            stationsFailed (stats wf) = stationsFailed (stats w') + 1 \<and>
            events wf = events w')) \<and>
   (ocr_query_loop env 0 w = (ores, oattempts, ow) \<longrightarrow>
      oattempts \<le> 5 \<and> count_solves (new_events w ow) \<le> oattempts \<and>
      count_submits (new_events w ow) \<le> oattempts)"
proof (intro conjI impI)
  assume i: "solve_loop env attempts 0 w = (code, k, w1)"
  from solve_loop_facts[OF i] obtain tr where
    f: "k \<le> 5" "captchaAttempts (stats w1) = captchaAttempts (stats w) + k"
       "events w1 = events w @ tr" "count_solves tr = k"
    by auto
  show "k \<le> 5" by fact
  show "captchaAttempts (stats w1) = captchaAttempts (stats w) + k" by fact
  show "count_solves (new_events w w1) = k" using f(3,4) by (simp add: new_events_append)
next
  assume q: "query_loop env 0 retries w = (res, attempts', retries', w')"
  from query_loop_facts[OF q] obtain tr where
    f: "attempts' \<le> 10" "res = Inr False \<longrightarrow> attempts' = 10"
       "captchaAttempts (stats w') \<le> captchaAttempts (stats w) + 5 * attempts'"
       "events w' = events w @ tr" "count_solves tr \<le> 5 * attempts'"
       "count_submits tr \<le> attempts'"
    by (auto simp: query_post_def)
  show "attempts' \<le> 10" by fact
  show "count_submits (new_events w w') \<le> attempts'" using f(4,6) by (simp add: new_events_append)
  show "count_solves (new_events w w') \<le> 5 * attempts'" using f(4,5) by (simp add: new_events_append)
  show "captchaAttempts (stats w') \<le> captchaAttempts (stats w) + 5 * attempts'" by fact
  show "attempts' = 10" if "res = Inr False" using f(2) that by simp
next
  assume "navigate env 0 w0 = (Inr u, wn) \<and> form env (tick wn) = Type_selected \<and>
    query_loop env 0 retries (next_tick wn) = (Inr False, attempts', retries', w')"
  then show "\<exists>wf. process_type fuel env deptId st pType (platesFound, retries, st_status) w0
               = Some (Inr (platesFound, retries', ''FAILED''), wf) \<and>
            stationsFailed (stats wf) = stationsFailed (stats w') + 1 \<and>
            events wf = events w'"
    using process_type_failed[of env w0 u wn retries attempts' retries' w']
    by (simp add: addError_def)
next
  assume o: "ocr_query_loop env 0 w = (ores, oattempts, ow)"
  from ocr_query_loop_facts[OF o] obtain tr where
    f: "oattempts \<le> 5" "events ow = events w @ tr" "count_solves tr \<le> oattempts"
       "count_submits tr \<le> oattempts"
    by (auto simp: ocr_post_def)
  show "oattempts \<le> 5" by fact
  show "count_solves (new_events w ow) \<le> oattempts" using f(2,3) by (simp add: new_events_append)
  show "count_submits (new_events w ow) \<le> oattempts" using f(2,4) by (simp add: new_events_append)
qed

text \<open>A solver that never answers exhausts both budgets.\<close>

lemma solveCaptcha_deaf:
  "solver env (tick w) = None \<Longrightarrow> fst (solveCaptcha env w) = None"
  by (simp add: solveCaptcha_def Let_def)

lemma solve_loop_deaf:
  assumes "\<forall>t. solver env t = None"
  shows "fst (solve_loop env a k w) = None"
proof (induction "5 - k" arbitrary: k w)
  case 0
  then show ?case by (simp add: solve_loop_done)
next
  case (Suc n)
  then have k: "k < 5" by simp
  define w1 where "w1 = (if k + 1 > 1 \<or> a > 1 then emit Refresh w else w)"
  obtain rawCode w2 where s: "solveCaptcha env w1 = (rawCode, w2)"
    by (cases "solveCaptcha env w1") auto
  have "rawCode = None" using solveCaptcha_deaf[of env w1] assms s by simp
  then have "solve_loop env a k w = solve_loop env a (k + 1) w2"
    using k s by (simp add: solve_loop.simps[of env a k w] w1_def Let_def valid_code_def)
  moreover have "fst (solve_loop env a (k + 1) w2) = None"
    using Suc.hyps(1)[of "k + 1" w2] Suc.hyps(2) by simp
  ultimately show ?case by simp
qed

lemma solveCaptcha_deaf_events:
  "solver env (tick w) = None \<Longrightarrow> events (snd (solveCaptcha env w)) = events w @ [Solve None]"
  by (simp add: solveCaptcha_def Let_def emit_def next_tick_def)

lemma solve_loop_deaf_last:
  assumes "\<forall>t. solver env t = None"
  shows "k < 5 \<Longrightarrow> last (events (snd (snd (solve_loop env a k w)))) = Solve None"
proof (induction "5 - k" arbitrary: k w)
  case 0
  then show ?case by simp
next
  case (Suc n)
  then have k: "k < 5" by simp
  define w1 where "w1 = (if k + 1 > 1 \<or> a > 1 then emit Refresh w else w)"
  obtain rawCode w2 where s: "solveCaptcha env w1 = (rawCode, w2)"
    by (cases "solveCaptcha env w1") auto
  have "rawCode = None" using solveCaptcha_deaf[of env w1] assms s by simp
  then have rec: "solve_loop env a k w = solve_loop env a (k + 1) w2"
    using k s by (simp add: solve_loop.simps[of env a k w] w1_def Let_def valid_code_def)
  have l2: "last (events w2) = Solve None"
    using solveCaptcha_deaf_events[of env w1] assms s by simp
  show ?case
  proof (cases "k + 1 < 5")
    case True
    have "n = 5 - (k + 1)" using Suc.hyps(2) by simp
    then show ?thesis using Suc.hyps(1)[OF _ True, of w2] rec by simp
  next
    case False
    then show ?thesis using rec l2 by (simp add: solve_loop_done)
  qed
qed

lemma query_loop_deaf:
  assumes "\<forall>t. solver env t = None"
  shows "query_loop env a r w = (res, a', r', w') \<Longrightarrow> a < 10 \<Longrightarrow>
         (if a = 0 then captcha_state_of valid_code w = Fresh
          else captcha_state_of valid_code w \<in> {Invalid_answer, After_submit}) \<Longrightarrow>
         res = Inr False \<and> a' = 10 \<and> captcha_state_of valid_code w' = Invalid_answer \<and>
         last (events w') = Solve None"
proof (induction "10 - a" arbitrary: a r w)
  case 0
  then show ?case by simp
next
  case (Suc n)
  have a: "a < 10" by fact
  let ?r1 = "if a + 1 > 1 then r + 1 else r"
  obtain code k w1 where inner: "solve_loop env (a + 1) 0 w = (code, k, w1)"
    by (cases "solve_loop env (a + 1) 0 w") auto
  have none: "code = None" using solve_loop_deaf[OF assms, of "a + 1" 0 w] inner by simp
  have pre: "if (0::nat) = 0 \<and> a + 1 \<le> 1 then captcha_state_of valid_code w = Fresh
             else captcha_state_of valid_code w \<in> {Invalid_answer, After_submit}"
    using Suc.prems(3) by (cases "a = 0") auto
  have st1: "captcha_state_of valid_code w1 = Invalid_answer"
    using solve_loop_state[OF inner _ pre] none by simp
  have l1: "last (events w1) = Solve None"
    using solve_loop_deaf_last[OF assms, of 0 "a + 1" w] inner by simp
  have q: "query_loop env (a + 1) ?r1 w1 = (res, a', r', w')"
    using query_loop_no_code[OF a, of env w k w1 r] inner none Suc.prems(1) by simp
  show ?case
  proof (cases "a + 1 < 10")
    case True
    have "n = 10 - (a + 1)" using Suc.hyps(2) by simp
    then show ?thesis using Suc.hyps(1)[OF _ q True] st1 by simp
  next
    case False
    then have "query_loop env (a + 1) ?r1 w1 = (Inr False, a + 1, ?r1, w1)"
      by (rule query_loop_done)
    then have "res = Inr False" "a' = a + 1" "w' = w1" using q by auto
    then show ?thesis using st1 l1 False a by auto
  qed
qed

lemma captcha_state_empty: "captcha_state_of ok empty_world = Fresh"
  by (simp add: captcha_state_of_def empty_world_def)

lemma deaf_env_solver: "\<forall>t. solver deaf_env t = None"
  by (simp add: deaf_env_def)

lemma clean_answer_examples:
  "clean_answer ''abc'' = ''ABC''"
  "clean_answer '' ab-12 '' = ''AB12''"
  "clean_answer ''ab12c'' = ''AB12C''"
  by code_simp+

lemma slow_query:
  "query_loop slow_env 0 0 empty_world =
     (Inr True, 1, 0,
      \<lparr>tick = 4, staging = [], production = [], sync_metadata = [], sync_logs = None,
       stats = \<lparr>status = ''RUNNING'', totalPlates = 0, stationsSuccess = 0, stationsFailed = 0,
                captchaAttempts = 3, captchaSuccess = 1, errors = []\<rparr>,
       events = [Solve (Some ''ABC''), Refresh, Solve (Some ''ABC''), Refresh,
                 Solve (Some ''AB12''), Submit ''AB12'']\<rparr>)"
  apply (subst query_loop.simps)
  apply (subst solve_loop.simps)
  apply (subst solve_loop.simps)
  apply (subst solve_loop.simps)
  apply (simp add: maxQueryAttempts_def Let_def solveCaptcha_def slow_env_def calm_env_def
      empty_world_def new_SyncStats_def emit_def next_tick_def valid_code_def truthy_def
      clean_answer_examples)
  done

lemma long_ocr:
  "ocr_query_loop long_env 0 empty_world =
     (Inr True, 1, empty_world\<lparr>tick := 2, events := [Solve (Some ''AB12C''), Submit ''AB12C'']\<rparr>)"
  apply (subst ocr_query_loop.simps)
  apply (simp add: Let_def ocr_solveCaptcha_def long_env_def calm_env_def
      empty_world_def new_SyncStats_def emit_def next_tick_def ocr_skips_def truthy_def
      clean_answer_examples)
  done

theorem retry_budgets_witness:
  "fst (query_loop deaf_env 0 0 empty_world) = Inr False \<and>
   fst (snd (query_loop deaf_env 0 0 empty_world)) = 10 \<and>
   count_solves (new_events empty_world (snd (snd (snd (query_loop deaf_env 0 0 empty_world)))))
     \<le> 50 \<and>
   count_submits (new_events empty_world (snd (snd (snd (query_loop deaf_env 0 0 empty_world)))))
     \<le> 10 \<and>
   fst (snd (solve_loop deaf_env 1 0 empty_world)) \<le> 5 \<and>
   fst (snd (ocr_query_loop deaf_env 0 empty_world)) \<le> 5 \<and>
   (\<exists>r' wf. process_type 0 deaf_env ''2'' example_station ''g'' (0, 0, ''SUCCESS'') empty_world
              = Some (Inr (0, r', ''FAILED''), wf) \<and>
            stationsFailed (stats wf) = 1)"
proof -
  obtain res a' r' w' where q: "query_loop deaf_env 0 0 empty_world = (res, a', r', w')"
    by (cases "query_loop deaf_env 0 0 empty_world") auto
  obtain code k w1 where i: "solve_loop deaf_env 1 0 empty_world = (code, k, w1)"
    by (cases "solve_loop deaf_env 1 0 empty_world") auto
  obtain ores oa ow where o: "ocr_query_loop deaf_env 0 empty_world = (ores, oa, ow)"
    by (cases "ocr_query_loop deaf_env 0 empty_world") auto
  let ?wn = "emit Goto (next_tick empty_world)"
  have n: "navigate deaf_env 0 empty_world = (Inr (), ?wn)"
    by (rule navigate_ok) (simp add: deaf_env_def calm_env_def)
  have f: "form deaf_env (tick ?wn) = Type_selected" by (simp add: deaf_env_def calm_env_def)
  obtain res2 a2 r2 w2 where q2: "query_loop deaf_env 0 0 (next_tick ?wn) = (res2, a2, r2, w2)"
    by (cases "query_loop deaf_env 0 0 (next_tick ?wn)") auto
  have d1: "res = Inr False \<and> a' = 10"
    using query_loop_deaf[OF deaf_env_solver q] captcha_state_empty by simp
  have d2: "res2 = Inr False"
    using query_loop_deaf[OF deaf_env_solver q2] by (simp add: captcha_state_empty)
  have s2: "stationsFailed (stats w2) = 0"
    using query_loop_facts[OF q2]
    by (simp add: query_post_def emit_def next_tick_def empty_world_def new_SyncStats_def)
  note t1 = retry_budgets[where env = deaf_env and attempts = 1 and w = empty_world
      and code = code and k = k and ?w1.0 = w1 and retries = 0 and res = res
      and attempts' = a' and retries' = r' and w' = w' and ores = ores and oattempts = oa
      and ow = ow]
  note t2 = retry_budgets[where env = deaf_env and retries = 0 and attempts' = a2
      and retries' = r2 and w' = w2 and ?w0.0 = empty_world and wn = ?wn and fuel = 0
      and deptId = "''2''" and st = example_station and pType = "''g''" and platesFound = 0
      and st_status = "''SUCCESS''"]
  have "\<exists>wf. process_type 0 deaf_env ''2'' example_station ''g'' (0, 0, ''SUCCESS'') empty_world
              = Some (Inr (0, r2, ''FAILED''), wf) \<and>
            stationsFailed (stats wf) = stationsFailed (stats w2) + 1 \<and>
            events wf = events w2"
    using t2[THEN conjunct2, THEN conjunct2, THEN conjunct1, of "()"] n f q2 d2 by blast
  then have p: "\<exists>r' wf. process_type 0 deaf_env ''2'' example_station ''g'' (0, 0, ''SUCCESS'')
                    empty_world = Some (Inr (0, r', ''FAILED''), wf) \<and>
                  stationsFailed (stats wf) = 1"
    using s2 by auto
  have c1: "k \<le> 5" using t1[THEN conjunct1] i by blast
  have c2: "a' \<le> 10 \<and> count_submits (new_events empty_world w') \<le> a' \<and>
            count_solves (new_events empty_world w') \<le> 5 * a'"
    using t1[THEN conjunct2, THEN conjunct1] q by blast
  have c4: "oa \<le> 5" using t1[THEN conjunct2, THEN conjunct2, THEN conjunct2] o by blast
  show ?thesis using c1 c2 c4 q i o d1 p by auto
qed

lemma slow_ocr:
  "ocr_query_loop slow_env 0 empty_world =
     (Inr True, 2,
      empty_world\<lparr>tick := 4,
        events := [Solve (Some ''ABC''), Refresh, Solve (Some ''AB12''), Submit ''AB12'']\<rparr>)"
  apply (subst ocr_query_loop.simps)
  apply (subst ocr_query_loop.simps)
  apply (simp add: Let_def ocr_solveCaptcha_def slow_env_def calm_env_def
      empty_world_def new_SyncStats_def emit_def next_tick_def ocr_skips_def truthy_def
      clean_answer_examples)
  done

text \<open>
  Claim C7, as amended. From a freshly loaded form, the events of the CAPTCHA loop of
  either worker are in order for the check of that worker (\<open>valid_code\<close>: exactly four
  characters, in the main worker; \<open>ocr_accepts\<close>: at least four, in the OCR variant).
  A code is submitted only right after a solver answer that is this very code and passes
  the check; an answer that does not pass is never submitted and is followed by a
  refresh and a new solver call, unless it is the last event, which happens only when the
  loop has used up its attempts (ten outer attempts of five solver calls, or five
  attempts). A candidate is left unsubmitted, or a refresh without its solver call, only
  when an exception has ended the loop. So every code submitted by the main worker has
  exactly four characters of \<open>[A-Z0-9]\<close>, and every code submitted by the OCR variant has
  at least four.
\<close>

theorem valid_answers_only:
  "(query_loop env 0 retries w = (res, attempts', retries', w') \<and>
    captcha_state_of valid_code w = Fresh \<longrightarrow>
      in_step (captcha_state_of valid_code w') (isl res) \<and>
      (captcha_state_of valid_code w' = Invalid_answer \<longrightarrow> res = Inr False \<and> attempts' = 10) \<and>
      (\<forall>c. Submit c \<in> set (new_events w w') \<longrightarrow> length c = 4 \<and> list_all is_AZ09 c)) \<and>
   (ocr_query_loop env 0 w = (ores, oattempts, ow) \<and>
    captcha_state_of ocr_accepts w = Fresh \<longrightarrow>
      in_step (captcha_state_of ocr_accepts ow) (isl ores) \<and>
      (captcha_state_of ocr_accepts ow = Invalid_answer \<longrightarrow> ores = Inr False \<and> oattempts = 5) \<and>
      (\<forall>c. Submit c \<in> set (new_events w ow) \<longrightarrow> 4 \<le> length c \<and> list_all is_AZ09 c))"
proof (rule conjI; rule impI)
  assume h: "query_loop env 0 retries w = (res, attempts', retries', w') \<and>
             captcha_state_of valid_code w = Fresh"
  then have q: "query_loop env 0 retries w = (res, attempts', retries', w')" by simp
  have 1: "in_step (captcha_state_of valid_code w') (isl res) \<and>
         (captcha_state_of valid_code w' = Invalid_answer \<longrightarrow> res = Inr False \<and> attempts' = 10)"
    using query_loop_state[OF q] h by simp
  from query_loop_facts[OF q] obtain tr where
    "events w' = events w @ tr" "\<forall>c. Submit c \<in> set tr \<longrightarrow> length c = 4 \<and> list_all is_AZ09 c"
    by (auto simp: query_post_def)
  then have 2: "\<forall>c. Submit c \<in> set (new_events w w') \<longrightarrow> length c = 4 \<and> list_all is_AZ09 c"
    by (simp add: new_events_append)
  show "in_step (captcha_state_of valid_code w') (isl res) \<and>
      (captcha_state_of valid_code w' = Invalid_answer \<longrightarrow> res = Inr False \<and> attempts' = 10) \<and>
      (\<forall>c. Submit c \<in> set (new_events w w') \<longrightarrow> length c = 4 \<and> list_all is_AZ09 c)"
    using 1 2 by blast
next
  assume h: "ocr_query_loop env 0 w = (ores, oattempts, ow) \<and>
             captcha_state_of ocr_accepts w = Fresh"
  then have q: "ocr_query_loop env 0 w = (ores, oattempts, ow)" by simp
  have 1: "in_step (captcha_state_of ocr_accepts ow) (isl ores) \<and>
         (captcha_state_of ocr_accepts ow = Invalid_answer \<longrightarrow> ores = Inr False \<and> oattempts = 5)"
    using ocr_query_loop_state[OF q] h by simp
  from ocr_query_loop_facts[OF q] obtain tr where
    "events ow = events w @ tr" "\<forall>c. Submit c \<in> set tr \<longrightarrow> 4 \<le> length c \<and> list_all is_AZ09 c"
    by (auto simp: ocr_post_def)
  then have 2: "\<forall>c. Submit c \<in> set (new_events w ow) \<longrightarrow> 4 \<le> length c \<and> list_all is_AZ09 c"
    by (simp add: new_events_append)
  show "in_step (captcha_state_of ocr_accepts ow) (isl ores) \<and>
      (captcha_state_of ocr_accepts ow = Invalid_answer \<longrightarrow> ores = Inr False \<and> oattempts = 5) \<and>
      (\<forall>c. Submit c \<in> set (new_events w ow) \<longrightarrow> 4 \<le> length c \<and> list_all is_AZ09 c)"
    using 1 2 by blast
qed

theorem valid_answers_only_witness:
  "captcha_state_of valid_code empty_world = Fresh \<and>
   captcha_state_of ocr_accepts empty_world = Fresh \<and>
   query_loop slow_env 0 0 empty_world =
     (Inr True, 1, 0,
      \<lparr>tick = 4, staging = [], production = [], sync_metadata = [], sync_logs = None,
       stats = \<lparr>status = ''RUNNING'', totalPlates = 0, stationsSuccess = 0, stationsFailed = 0,
                captchaAttempts = 3, captchaSuccess = 1, errors = []\<rparr>,
       events = [Solve (Some ''ABC''), Refresh, Solve (Some ''ABC''), Refresh,
                 Solve (Some ''AB12''), Submit ''AB12'']\<rparr>) \<and>
   ocr_query_loop slow_env 0 empty_world =
     (Inr True, 2,
      empty_world\<lparr>tick := 4,
        events := [Solve (Some ''ABC''), Refresh, Solve (Some ''AB12''), Submit ''AB12'']\<rparr>) \<and>
   length ''AB12'' = 4 \<and> list_all is_AZ09 ''AB12''"
proof -
  let ?W = "\<lparr>tick = 4, staging = [], production = [], sync_metadata = [], sync_logs = None,
       stats = \<lparr>status = ''RUNNING'', totalPlates = 0, stationsSuccess = 0, stationsFailed = 0,
                captchaAttempts = 3, captchaSuccess = 1, errors = []\<rparr>,
       events = [Solve (Some ''ABC''), Refresh, Solve (Some ''ABC''), Refresh,
                 Solve (Some ''AB12''), Submit ''AB12'']\<rparr>"
  let ?O = "empty_world\<lparr>tick := 4,
        events := [Solve (Some ''ABC''), Refresh, Solve (Some ''AB12''), Submit ''AB12'']\<rparr>"
  note t = valid_answers_only[where env = slow_env and retries = 0 and w = empty_world
      and res = "Inr True" and attempts' = 1 and retries' = 0 and w' = ?W
      and ores = "Inr True" and oattempts = 2 and ow = ?O]
  have m: "\<forall>c. Submit c \<in> set (new_events empty_world ?W) \<longrightarrow> length c = 4 \<and> list_all is_AZ09 c"
    using t[THEN conjunct1] slow_query captcha_state_empty by blast
  have "Submit ''AB12'' \<in> set (new_events empty_world ?W)"
    by (simp add: new_events_def empty_world_def)
  then have l: "length ''AB12'' = 4 \<and> list_all is_AZ09 ''AB12''" using m by blast
  show ?thesis
    using captcha_state_empty[of valid_code] captcha_state_empty[of ocr_accepts]
      slow_query slow_ocr l
    by (intro conjI) simp_all
qed

text \<open>
  The claim as stated fails in the OCR variant: an answer of five characters passes its
  check, and is typed and submitted.
\<close>

theorem checked_answers_counterexample:
  "ocr_query_loop long_env 0 empty_world =
     (Inr True, 1, empty_world\<lparr>tick := 2, events := [Solve (Some ''AB12C''), Submit ''AB12C'']\<rparr>) \<and>
   length ''AB12C'' = 5 \<and> \<not> valid_code (Some ''AB12C'')"
  by (simp add: long_ocr valid_code_def)

subsection \<open>Pagination\<close>

lemma paginate_frame:
  "paginate fuel env q k c w = Some (r, w') \<Longrightarrow>
     staging w' = staging w \<and> stats w' = stats w \<and> tick w' = tick w \<and>
     (\<exists>tr. events w' = events w @ tr)"
proof (induction fuel arbitrary: k c w)
  case 0
  then show ?case by simp
next
  case (Suc fuel)
  show ?case
  proof (cases "listing env q k")
    case (Inl m)
    then show ?thesis using Suc.prems by auto
  next
    case (Inr pg)
    let ?c' = "if length (scraped (cells pg)) > 0 then c @ scraped (cells pg) else c"
    show ?thesis
    proof (cases "\<not> info_noData (parsePageInfo pg) \<and>
                  (info_current (parsePageInfo pg) < info_total (parsePageInfo pg)
                   \<or> info_hasNextButton (parsePageInfo pg)) \<and>
                  (status_next_page pg \<or> next_id pg)")
      case True
      then have "paginate fuel env q (k + 1) ?c' (emit Click_next w) = Some (r, w')"
        using Suc.prems Inr by (simp add: Let_def)
      from Suc.IH[OF this] show ?thesis by (auto simp: emit_def)
    next
      case False
      then have "w' = w" using Suc.prems Inr by (auto simp: Let_def split: if_splits)
      then show ?thesis by simp
    qed
  qed
qed

text \<open>
  Claim C10. On a page that does not show the no-data text, whose page marker is absent
  or claims a total of one page, and that shows a next-page control, \<open>parsePageInfo\<close>
  raises the total to 2 and reports the control, and the pagination loop keeps the plates
  of the page, clicks the control and goes on with the next page; whenever it returns,
  the click is among its events.
\<close>

theorem next_control_is_authoritative:
  assumes "listing env q k = Inr pg" and "\<not> no_data_text pg"
    and "pages_text pg = None \<or> (\<exists>c. pages_text pg = Some (c, 1))"
    and "status_next_page pg \<or> next_id pg"
  shows "info_total (parsePageInfo pg) = 2 \<and> info_hasNextButton (parsePageInfo pg) \<and>
         paginate (Suc fuel) env q k collectedPlates w =
           paginate fuel env q (k + 1) (collectedPlates @ scraped (cells pg)) (emit Click_next w) \<and>
         (\<forall>r w'. paginate (Suc fuel) env q k collectedPlates w = Some (r, w')
                 \<longrightarrow> Click_next \<in> set (new_events w w'))"
proof -
  have t: "info_total (parsePageInfo pg) = 2" "info_hasNextButton (parsePageInfo pg)"
    "\<not> info_noData (parsePageInfo pg)"
    using assms(2,3,4) by (auto simp: parsePageInfo_def Let_def)
  have p: "paginate (Suc fuel) env q k collectedPlates w =
           paginate fuel env q (k + 1) (collectedPlates @ scraped (cells pg)) (emit Click_next w)"
    using assms(1,4) t by (simp add: Let_def)
  have e: "\<forall>r w'. paginate (Suc fuel) env q k collectedPlates w = Some (r, w')
                 \<longrightarrow> Click_next \<in> set (new_events w w')"
  proof (intro allI impI)
    fix r w' assume "paginate (Suc fuel) env q k collectedPlates w = Some (r, w')"
    then have "paginate fuel env q (k + 1) (collectedPlates @ scraped (cells pg))
                 (emit Click_next w) = Some (r, w')"
      using p by simp
    from paginate_frame[OF this] obtain tr where "events w' = (events w @ [Click_next]) @ tr"
      by (auto simp: emit_def)
    then show "Click_next \<in> set (new_events w w')" by (simp add: new_events_def)
  qed
  show ?thesis using t p e by blast
qed

lemma two_pages:
  "paginate 2 two_page_env 0 0 [] empty_world =
     Some (Inr [\<lparr>no = Some ''XYZ-0001'', price_text = Some ''3,000''\<rparr>,
                \<lparr>no = Some ''ABC-1234'', price_text = Some ''50000''\<rparr>],
           emit Click_next empty_world)"
  by (simp add: numeral_2_eq_2 two_page_env_def calm_env_def first_page_def one_page_def
      parsePageInfo_def Let_def scraped_def truthy_def)

theorem next_control_is_authoritative_witness:
  "listing two_page_env 0 0 = Inr first_page \<and> \<not> no_data_text first_page \<and>
   pages_text first_page = Some (1, 1) \<and> next_id first_page \<and>
   info_total (parsePageInfo first_page) = 2 \<and>
   paginate 2 two_page_env 0 0 [] empty_world =
     Some (Inr [\<lparr>no = Some ''XYZ-0001'', price_text = Some ''3,000''\<rparr>,
                \<lparr>no = Some ''ABC-1234'', price_text = Some ''50000''\<rparr>],
           emit Click_next empty_world) \<and>
   Click_next \<in> set (new_events empty_world (emit Click_next empty_world))"
proof -
  have a: "listing two_page_env 0 0 = Inr first_page" by (simp add: two_page_env_def calm_env_def)
  have b: "\<not> no_data_text first_page" by (simp add: first_page_def)
  have c: "pages_text first_page = None \<or> (\<exists>c. pages_text first_page = Some (c, 1))"
    by (simp add: first_page_def)
  have d: "status_next_page first_page \<or> next_id first_page" by (simp add: first_page_def)
  note t = next_control_is_authoritative[OF a b c d, of 1 "[]" empty_world]
  have "Click_next \<in> set (new_events empty_world (emit Click_next empty_world))"
    using t two_pages by (simp add: numeral_2_eq_2)
  then show ?thesis using t a b two_pages by (simp add: first_page_def)
qed

subsection \<open>The staging table while a station is processed\<close>

lemma quiet_refl: "quiet w w"
  by (simp add: quiet_def)

lemma quiet_trans:
  assumes "quiet w w1" "quiet w1 w2"
  shows "quiet w w2"
proof -
  from assms obtain tr1 tr2 where
    t: "events w1 = events w @ tr1" "inserted tr1 = []"
       "events w2 = events w1 @ tr2" "inserted tr2 = []"
    and s: "staging w1 = staging w" "staging w2 = staging w1"
    by (auto simp: quiet_def)
  have "events w2 = events w @ (tr1 @ tr2)" "inserted (tr1 @ tr2) = []" using t by simp_all
  then show ?thesis unfolding quiet_def using s by metis
qed

lemma quiet_grows:
  assumes "quiet w w'"
  shows "grows w w'" and "inserted (new_events w w') = []"
  using assms by (auto simp: quiet_def grows_def new_events_def)

lemma grows_trans:
  assumes "grows w w1" "grows w1 w2"
  shows "grows w w2"
    and "inserted (new_events w w2) = inserted (new_events w w1) @ inserted (new_events w1 w2)"
proof -
  from assms obtain tr1 tr2 where
    t: "events w1 = events w @ tr1" "events w2 = events w1 @ tr2"
    by (auto simp: grows_def)
  have n: "new_events w w1 = tr1" "new_events w1 w2 = tr2" "new_events w w2 = tr1 @ tr2"
    using t by (simp_all add: new_events_def)
  have s: "staging w1 = staging w @ inserted tr1" "staging w2 = staging w1 @ inserted tr2"
    using assms n by (simp_all add: grows_def)
  show "inserted (new_events w w2) = inserted (new_events w w1) @ inserted (new_events w1 w2)"
    using n by simp
  have "events w2 = events w @ (tr1 @ tr2)" using t by simp
  then show "grows w w2" unfolding grows_def using n s by auto
qed

lemma quiet_steps:
  "quiet w (next_tick w)" "quiet w (emit Goto w)" "quiet w (emit Click_next w)"
  "quiet w (emit (Station_begin i d) w)"
  by (simp_all add: quiet_def next_tick_def emit_def)

lemma navigate_done: "\<not> n < 3 \<Longrightarrow> navigate env n w = (Inr (), w)"
  by (subst navigate.simps) simp

lemma navigate_frame:
  "navigate env n w = (r, w') \<Longrightarrow> quiet w w' \<and> stats w' = stats w"
proof (induction "3 - n" arbitrary: n w)
  case 0
  then show ?case by (simp add: navigate_done quiet_refl)
next
  case (Suc k)
  then have n: "n < 3" by simp
  let ?w1 = "emit Goto (next_tick w)"
  have f: "quiet w ?w1" "stats ?w1 = stats w"
    by (simp_all add: quiet_def emit_def next_tick_def)
  show ?case
  proof (cases "goto_error env (tick w)")
    case None
    then have "navigate env n w = (Inr (), ?w1)"
      using n by (subst navigate.simps) (simp add: Let_def)
    then show ?thesis using Suc.prems f by auto
  next
    case (Some m)
    show ?thesis
    proof (cases "n + 1 < 3")
      case True
      then have "navigate env n w = navigate env (n + 1) ?w1"
        using n Some by (subst navigate.simps) (simp add: Let_def)
      then have "navigate env (n + 1) ?w1 = (r, w')" using Suc.prems by simp
      moreover have "k = 3 - (n + 1)" using Suc.hyps(2) by simp
      ultimately have "quiet ?w1 w' \<and> stats w' = stats ?w1"
        using Suc.hyps(1)[of "n + 1" ?w1] by simp
      then show ?thesis using f quiet_trans by auto
    next
      case False
      then have "navigate env n w = (Inl (Error m), ?w1)"
        using n Some by (subst navigate.simps) (simp add: Let_def)
      then show ?thesis using Suc.prems f by auto
    qed
  qed
qed

lemma query_loop_quiet:
  "query_loop env a r w = (res, a', r', w') \<Longrightarrow> a \<le> 10 \<Longrightarrow> quiet w w'"
  using query_loop_facts[of env a r w res a' r' w'] by (auto simp: query_post_def quiet_def)

lemma paginate_quiet:
  "paginate fuel env q k c w = Some (r, w') \<Longrightarrow> quiet w w'"
proof (induction fuel arbitrary: k c w)
  case 0
  then show ?case by simp
next
  case (Suc fuel)
  show ?case
  proof (cases "listing env q k")
    case (Inl m)
    then show ?thesis using Suc.prems by (auto simp: quiet_refl)
  next
    case (Inr pg)
    let ?c' = "if length (scraped (cells pg)) > 0 then c @ scraped (cells pg) else c"
    show ?thesis
    proof (cases "\<not> info_noData (parsePageInfo pg) \<and>
                  (info_current (parsePageInfo pg) < info_total (parsePageInfo pg)
                   \<or> info_hasNextButton (parsePageInfo pg)) \<and>
                  (status_next_page pg \<or> next_id pg)")
      case True
      then have "paginate fuel env q (k + 1) ?c' (emit Click_next w) = Some (r, w')"
        using Suc.prems Inr by (simp add: Let_def)
      then have "quiet (emit Click_next w) w'" by (rule Suc.IH)
      then show ?thesis using quiet_steps(3) quiet_trans by blast
    next
      case False
      then have "w' = w" using Suc.prems Inr by (auto simp: Let_def split: if_splits)
      then show ?thesis by (simp add: quiet_refl)
    qed
  qed
qed

lemma rows_in_partition:
  "r \<in> set (rows_to_insert deptId st pType collectedPlates) \<Longrightarrow> in_partition deptId st r"
  by (auto simp: rows_to_insert_def to_row_def in_partition_def)

text \<open>The insert of one query: the rows are appended when the insert returns no error.\<close>

lemma stage_effect:
  assumes "stage env deptId st pType cs pf w = (pf', w')"
  shows "grows w w'"
    and "inserted (new_events w w') =
           (if cs \<noteq> [] \<and> db_error env (tick w) = None
            then rows_to_insert deptId st pType cs else [])"
proof -
  show "grows w w'"
  proof (cases "cs = []")
    case True
    then have "w' = w" using assms by (simp add: stage_def)
    then show ?thesis by (simp add: grows_def new_events_def)
  next
    case False
    then show ?thesis
      using assms
      by (cases "db_error env (tick w)")
         (auto simp: stage_def Let_def grows_def new_events_def emit_def next_tick_def
            addError_def)
  qed
  show "inserted (new_events w w') =
           (if cs \<noteq> [] \<and> db_error env (tick w) = None
            then rows_to_insert deptId st pType cs else [])"
  proof (cases "cs = []")
    case True
    then have "w' = w" using assms by (simp add: stage_def)
    then show ?thesis using True by (simp add: new_events_def)
  next
    case False
    then show ?thesis
      using assms
      by (cases "db_error env (tick w)")
         (auto simp: stage_def Let_def new_events_def emit_def next_tick_def addError_def)
  qed
qed

text \<open>One query makes at most one successful insert, of the rows built from what it collected.\<close>

lemma process_type_frame:
  assumes "process_type fuel env deptId st pType locals w = Some (r, w')"
  shows "grows w w' \<and>
         (inserted (new_events w w') = [] \<or>
          (\<exists>cs. inserted (new_events w w') = rows_to_insert deptId st pType cs))"
proof -
  obtain platesFound retries st_status where l: "locals = (platesFound, retries, st_status)"
    by (cases locals) auto
  obtain nr w1 where n: "navigate env 0 w = (nr, w1)" by (cases "navigate env 0 w") auto
  have s1: "quiet w w1" using navigate_frame[OF n] by simp
  have none: "quiet w w' \<Longrightarrow> ?thesis" using quiet_grows by blast
  show ?thesis
  proof (cases nr)
    case (Inl e)
    then have "w' = w1" using assms l n by (simp add: process_type_def)
    then show ?thesis using s1 none by simp
  next
    case (Inr u)
    let ?w2 = "next_tick w1"
    have s2: "quiet w ?w2" using s1 quiet_steps(1) quiet_trans by blast
    show ?thesis
    proof (cases "form env (tick w1)")
      case (Form_fault m)
      then have "w' = ?w2" using assms l n Inr by (simp add: process_type_def Let_def)
      then show ?thesis using s2 none by simp
    next
      case Type_absent
      then have "w' = ?w2" using assms l n Inr by (simp add: process_type_def Let_def)
      then show ?thesis using s2 none by simp
    next
      case Type_selected
      obtain qr attempts retries' w3 where q: "query_loop env 0 retries ?w2 = (qr, attempts, retries', w3)"
        by (cases "query_loop env 0 retries ?w2") auto
      have s3: "quiet w w3"
        using query_loop_quiet[OF q] s2 quiet_trans by blast
      show ?thesis
      proof (cases qr)
        case (Inl e)
        then have "w' = w3"
          using assms l n Inr Type_selected q by (simp add: process_type_def Let_def)
        then show ?thesis using s3 none by simp
      next
        case qi: (Inr success)
        show ?thesis
        proof (cases success)
          case False
          then have "quiet w3 w'"
            using assms l n Inr Type_selected q qi
            by (auto simp: process_type_def Let_def addError_def quiet_def)
          then show ?thesis using s3 none quiet_trans by blast
        next
          case True
          obtain pr w4 where p: "paginate fuel env (tick w3) 0 [] w3 = Some (pr, w4)"
            using assms l n Inr Type_selected q qi True
            by (cases "paginate fuel env (tick w3) 0 [] w3")
               (auto simp: process_type_def Let_def)
          have s4: "quiet w w4" using paginate_quiet[OF p] s3 quiet_trans by blast
          show ?thesis
          proof (cases pr)
            case (Inl e)
            then have "w' = w4"
              using assms l n Inr Type_selected q qi True p by (simp add: process_type_def Let_def)
            then show ?thesis using s4 none by simp
          next
            case pi: (Inr collectedPlates)
            obtain pf' w5 where g: "stage env deptId st pType collectedPlates platesFound w4 = (pf', w5)"
              by (cases "stage env deptId st pType collectedPlates platesFound w4") auto
            then have w': "w' = w5"
              using assms l n Inr Type_selected q qi True p pi by (simp add: process_type_def Let_def)
            note se = stage_effect[OF g]
            note qg = quiet_grows[OF s4]
            have 1: "grows w w5" using grows_trans(1)[OF qg(1) se(1)] .
            have 2: "inserted (new_events w w5) = inserted (new_events w4 w5)"
              using grows_trans(2)[OF qg(1) se(1)] qg(2) by simp
            have "inserted (new_events w4 w5) = [] \<or>
                  inserted (new_events w4 w5) = rows_to_insert deptId st pType collectedPlates"
              using se(2) by (simp split: if_splits)
            then show ?thesis using 1 2 w' by auto
          qed
        qed
      qed
    qed
  qed
qed

lemma process_types_frame:
  "process_types fuel env deptId st pTypes locals w = Some (r, w') \<Longrightarrow>
     grows w w' \<and> (\<forall>r \<in> set (inserted (new_events w w')). in_partition deptId st r)"
proof (induction pTypes arbitrary: locals w)
  case Nil
  then have "w' = w" by simp
  then show ?case by (simp add: grows_def new_events_def)
next
  case (Cons pType rest)
  obtain r1 w1 where p: "process_type fuel env deptId st pType locals w = Some (r1, w1)"
    using Cons.prems by (cases "process_type fuel env deptId st pType locals w") auto
  from process_type_frame[OF p] have
    g1: "grows w w1" and
    r1: "\<forall>r \<in> set (inserted (new_events w w1)). in_partition deptId st r"
    using rows_in_partition by auto
  show ?case
  proof (cases r1)
    case (Inl e)
    then have "w' = w1" using Cons.prems p by simp
    then show ?thesis using g1 r1 by simp
  next
    case (Inr locals')
    then have "process_types fuel env deptId st rest locals' w1 = Some (r, w')"
      using Cons.prems p by simp
    from Cons.IH[OF this] have
      g2: "grows w1 w'" and
      r2: "\<forall>r \<in> set (inserted (new_events w1 w')). in_partition deptId st r"
      by simp_all
    show ?thesis using grows_trans[OF g1 g2] r1 r2 by auto
  qed
qed

lemma calm_env_simps:
  "db_error calm_env t = None" "goto_error calm_env t = None" "form calm_env t = Type_selected"
  "solver calm_env t = Some ''ab12''" "click_error calm_env t = None"
  "submission calm_env t = Submitted None True" "listing calm_env q k = Inr one_page"
  by (simp_all add: calm_env_def)

text \<open>
  Claim C5. The rows that the insert of one query adds to the staging table are
  deduplicated by plate number, the last occurrence winning. When the insert returns no
  error, the table grows by rows that hold every non-empty collected plate number exactly
  once, each row built from the last collected plate with that number (its price is
  the price of that last occurrence); when it returns an error, the table is left as it
  was. Whatever one query as a whole appends to the table has distinct plate numbers,
  and is what its insert wrote. For the collected rows A/10, B/20, A/15 the table grows
  by A with price 15 and B with price 20 (the witness).
\<close>

theorem staged_rows_deduplicated:
  "(stage env deptId st pType collectedPlates platesFound w = (platesFound', w') \<longrightarrow>
      (\<exists>rows. staging w' = staging w @ rows \<and>
         (db_error env (tick w) = None \<longrightarrow>
            set (map plate_no rows) = {n. n \<noteq> [] \<and> Some n \<in> no ` set collectedPlates}) \<and>
         (db_error env (tick w) \<noteq> None \<longrightarrow> rows = []) \<and>
         distinct (map plate_no rows) \<and>
         (\<forall>r \<in> set rows.
            r = to_row deptId st pType
                  (last (filter (\<lambda>q. no q = Some (plate_no r)) collectedPlates))))) \<and>
   (process_type fuel env deptId st pType locals w = Some (res, w2) \<longrightarrow>
      (\<exists>rows. staging w2 = staging w @ rows \<and> rows = inserted (new_events w w2) \<and>
              distinct (map plate_no rows)))"
proof (intro conjI impI)
  assume g: "stage env deptId st pType collectedPlates platesFound w = (platesFound', w')"
  note se = stage_effect[OF g]
  note dd = rows_to_insert_dedup[of deptId st pType collectedPlates]
  let ?rows = "inserted (new_events w w')"
  have a: "staging w' = staging w @ ?rows" using se(1) by (simp add: grows_def)
  show "\<exists>rows. staging w' = staging w @ rows \<and>
         (db_error env (tick w) = None \<longrightarrow>
            set (map plate_no rows) = {n. n \<noteq> [] \<and> Some n \<in> no ` set collectedPlates}) \<and>
         (db_error env (tick w) \<noteq> None \<longrightarrow> rows = []) \<and>
         distinct (map plate_no rows) \<and>
         (\<forall>r \<in> set rows.
            r = to_row deptId st pType
                  (last (filter (\<lambda>q. no q = Some (plate_no r)) collectedPlates)))"
  proof (cases "collectedPlates \<noteq> [] \<and> db_error env (tick w) = None")
    case True
    then have "?rows = rows_to_insert deptId st pType collectedPlates" using se(2) by simp
    then show ?thesis using a dd True by (intro exI[of _ ?rows]) simp
  next
    case False
    then have e: "?rows = []" using se(2) by auto
    have "db_error env (tick w) = None \<longrightarrow>
            {n. n \<noteq> [] \<and> Some n \<in> no ` set collectedPlates} = {}"
      using False by auto
    then show ?thesis using a e by (intro exI[of _ "[]"]) simp
  qed
next
  assume p: "process_type fuel env deptId st pType locals w = Some (res, w2)"
  let ?rows = "inserted (new_events w w2)"
  from process_type_frame[OF p] have
    g: "grows w w2" and
    r: "?rows = [] \<or> (\<exists>cs. ?rows = rows_to_insert deptId st pType cs)"
    by simp_all
  have "distinct (map plate_no ?rows)"
    using r rows_to_insert_dedup[of deptId st pType] by auto
  moreover have "staging w2 = staging w @ ?rows" using g by (simp add: grows_def)
  ultimately show "\<exists>rows. staging w2 = staging w @ rows \<and> rows = inserted (new_events w w2) \<and>
              distinct (map plate_no rows)"
    by simp
qed

lemma example_stage:
  "stage calm_env ''2'' example_station ''g'' example_collected 0 (empty_world\<lparr>staging := old_rows\<rparr>) =
     (2, empty_world\<lparr>tick := 1,
           staging := old_rows @ rows_to_insert ''2'' example_station ''g'' example_collected,
           stats := new_SyncStats\<lparr>totalPlates := 2\<rparr>,
           events := [Insert (rows_to_insert ''2'' example_station ''g'' example_collected) None]\<rparr>)"
  by (simp add: stage_def Let_def calm_env_simps example_rows emit_def next_tick_def
      empty_world_def new_SyncStats_def)
     (simp add: example_collected_def)

theorem staged_rows_deduplicated_witness:
  "\<exists>w'. stage calm_env ''2'' example_station ''g'' example_collected 0
            (empty_world\<lparr>staging := old_rows\<rparr>) = (2, w') \<and>
         db_error calm_env (tick (empty_world\<lparr>staging := old_rows\<rparr>)) = None \<and>
         staging w' = old_rows @
           [\<lparr>station_id = ''20'', station_name = ''Taipei'', region_id = ''2'', plate_type = ''g'',
             window_id = ''01'', plate_no = ''A'', price = Num 15, row_status = ''AVAILABLE''\<rparr>,
            \<lparr>station_id = ''20'', station_name = ''Taipei'', region_id = ''2'', plate_type = ''g'',
             window_id = ''01'', plate_no = ''B'', price = Num 20, row_status = ''AVAILABLE''\<rparr>] \<and>
         set (map plate_no (drop (length old_rows) (staging w'))) =
           {n. n \<noteq> [] \<and> Some n \<in> no ` set example_collected}"
proof -
  let ?w = "empty_world\<lparr>staging := old_rows\<rparr>"
  let ?w' = "empty_world\<lparr>tick := 1,
           staging := old_rows @ rows_to_insert ''2'' example_station ''g'' example_collected,
           stats := new_SyncStats\<lparr>totalPlates := 2\<rparr>,
           events := [Insert (rows_to_insert ''2'' example_station ''g'' example_collected) None]\<rparr>"
  have d: "db_error calm_env (tick ?w) = None" by (simp add: calm_env_simps)
  from staged_rows_deduplicated[where env = calm_env and deptId = "''2''" and st = example_station
      and pType = "''g''" and collectedPlates = example_collected and platesFound = 0
      and w = ?w and platesFound' = 2 and w' = ?w', THEN conjunct1] example_stage d
  obtain rows where
    r: "staging ?w' = staging ?w @ rows"
       "set (map plate_no rows) = {n. n \<noteq> [] \<and> Some n \<in> no ` set example_collected}"
    by blast
  have s: "staging ?w' = old_rows @ rows_to_insert ''2'' example_station ''g'' example_collected"
    by simp
  have "staging ?w = old_rows" by simp
  then have "rows = drop (length old_rows) (staging ?w')" using r(1) by simp
  then have "set (map plate_no (drop (length old_rows) (staging ?w'))) =
           {n. n \<noteq> [] \<and> Some n \<in> no ` set example_collected}"
    using r(2) by simp
  then show ?thesis
    using example_stage d s by (intro exI[of _ ?w']) (simp add: example_rows)
qed

text \<open>
  Claim C6. Processing a station first deletes from staging exactly the rows of the
  station's partition (or nothing, when the delete reports an error), and every row that
  an insert writes afterwards is still there at the end: the staging table at the end is
  the cleared table followed by the rows of all successful inserts of this call, in their
  order. These rows all belong to the partition of the station, so the rows of every
  other partition are there as before, in the same order.
\<close>

theorem partition_isolation:
  assumes "process_station fuel env deptId st w = Some (r, w')"
  shows "staging w' =
            (case db_error env (tick w) of
               None \<Rightarrow> filter (\<lambda>r. \<not> in_partition deptId st r) (staging w)
             | Some m \<Rightarrow> staging w) @ inserted (new_events w w') \<and>
         (\<forall>r \<in> set (inserted (new_events w w')). in_partition deptId st r) \<and>
         filter (\<lambda>r. \<not> in_partition deptId st r) (staging w') =
         filter (\<lambda>r. \<not> in_partition deptId st r) (staging w)"
proof -
  let ?w0 = "emit (Station_begin (st_id st) deptId) w"
  let ?cleared = "case db_error env (tick w) of
               None \<Rightarrow> filter (\<lambda>r. \<not> in_partition deptId st r) (staging w)
             | Some m \<Rightarrow> staging w"
  let ?w1 = "next_tick (case db_error env (tick ?w0) of Some m \<Rightarrow> ?w0
      | None \<Rightarrow> ?w0\<lparr>staging := filter (\<lambda>r. \<not> in_partition deptId st r) (staging ?w0)\<rparr>)"
  let ?types = "[''g''] @ (if \<not> no_rental st then [''h''] else [])"
  have c: "staging ?w1 = ?cleared"
    by (simp add: emit_def next_tick_def split: option.splits)
  have e1: "events ?w1 = events w @ [Station_begin (st_id st) deptId]"
    by (simp add: emit_def next_tick_def split: option.splits)
  obtain r2 w2 where p: "process_types fuel env deptId st ?types (0, 0, ''SUCCESS'') ?w1 = Some (r2, w2)"
    using assms
    by (cases "process_types fuel env deptId st ?types (0, 0, ''SUCCESS'') ?w1")
       (auto simp: process_station_def Let_def)
  from process_types_frame[OF p] have
    g: "grows ?w1 w2" and
    rows: "\<forall>r \<in> set (inserted (new_events ?w1 w2)). in_partition deptId st r"
    by simp_all
  from g obtain tr where tr: "events w2 = events ?w1 @ tr" by (auto simp: grows_def)
  have same: "staging w' = staging w2" "events w' = events w2"
    using assms p
    by (auto simp: process_station_def Let_def getRegion_def split: sum.splits prod.splits if_splits)
  have n1: "new_events ?w1 w2 = tr" using tr by (simp add: new_events_def)
  have n2: "new_events w w' = Station_begin (st_id st) deptId # tr"
    using tr e1 same(2) by (simp add: new_events_def)
  have i: "inserted (new_events w w') = inserted (new_events ?w1 w2)" using n1 n2 by simp
  have 1: "staging w' = ?cleared @ inserted (new_events w w')"
    using g c same(1) i by (simp add: grows_def)
  have 2: "\<forall>r \<in> set (inserted (new_events w w')). in_partition deptId st r" using rows i by simp
  have "filter (\<lambda>r. \<not> in_partition deptId st r) (inserted (new_events w w')) = []"
    using 2 by (auto simp: filter_empty_conv)
  moreover have "filter (\<lambda>r. \<not> in_partition deptId st r) ?cleared =
           filter (\<lambda>r. \<not> in_partition deptId st r) (staging w)"
    by (simp split: option.splits)
  ultimately have 3: "filter (\<lambda>r. \<not> in_partition deptId st r) (staging w') =
         filter (\<lambda>r. \<not> in_partition deptId st r) (staging w)"
    using 1 by simp
  show ?thesis using 1 2 3 by blast
qed

lemma calm_solveCaptcha:
  "solveCaptcha calm_env w =
     (Some ''AB12'',
      emit (Solve (Some ''AB12''))
        (next_tick (w\<lparr>stats := (stats w)\<lparr>captchaAttempts := captchaAttempts (stats w) + 1,
                                         captchaSuccess := captchaSuccess (stats w) + 1\<rparr>\<rparr>)))"
proof -
  have "clean_answer ''ab12'' = ''AB12''" by code_simp
  then show ?thesis
    by (simp add: solveCaptcha_def calm_env_simps Let_def next_tick_def emit_def)
qed

lemma calm_solve_loop:
  "solve_loop calm_env (Suc 0) 0 w = (Some ''AB12'', Suc 0, snd (solveCaptcha calm_env w))"
  by (subst solve_loop.simps) (simp add: calm_solveCaptcha valid_code_def)

lemma calm_query_loop:
  "query_loop calm_env 0 r w =
     (Inr True, Suc 0, r,
      emit (Submit ''AB12'') (next_tick (snd (solveCaptcha calm_env w))))"
  by (subst query_loop.simps)
     (simp add: maxQueryAttempts_def calm_solve_loop calm_env_simps truthy_def)

lemma calm_paginate:
  "paginate (Suc fuel) calm_env q 0 [] w =
     Some (Inr [\<lparr>no = Some ''ABC-1234'', price_text = Some ''50000''\<rparr>], w)"
  by (simp add: calm_env_simps one_page_def parsePageInfo_def Let_def scraped_def truthy_def)

lemma calm_navigate: "navigate calm_env 0 w = (Inr (), emit Goto (next_tick w))"
  by (rule navigate_ok) (simp add: calm_env_simps)

lemma calm_rows:
  "rows_to_insert ''2'' example_station ''g'' [\<lparr>no = Some ''ABC-1234'', price_text = Some ''50000''\<rparr>]
     = [\<lparr>station_id = ''20'', station_name = ''Taipei'', region_id = ''2'', plate_type = ''g'',
         window_id = ''01'', plate_no = ''ABC-1234'', price = Num 50000, row_status = ''AVAILABLE''\<rparr>]"
  by (simp add: rows_to_insert_def finalPlates_def uniquePlatesMap_def
      truthy_def to_row_def price_of_def parseInt_examples example_station_def)

lemma calm_process_type:
  "process_type (Suc fuel) calm_env ''2'' example_station ''g'' (pf, r, s) w =
     Some (Inr (pf + 1, r, s),
       (let w3 = emit (Submit ''AB12'') (next_tick (snd (solveCaptcha calm_env
                   (next_tick (emit Goto (next_tick w))))));
            rows = rows_to_insert ''2'' example_station ''g''
                     [\<lparr>no = Some ''ABC-1234'', price_text = Some ''50000''\<rparr>];
            w4 = emit (Insert rows None) (next_tick w3)
        in w4\<lparr>staging := staging w4 @ rows,
              stats := (stats w4)\<lparr>totalPlates := totalPlates (stats w4) + 1\<rparr>\<rparr>))"
  by (simp add: process_type_def Let_def calm_navigate calm_query_loop calm_paginate stage_def
      calm_env_simps calm_rows del: paginate.simps)

lemma example_station_fields:
  "st_id example_station = ''20''" "st_name example_station = ''Taipei''"
  "no_rental example_station"
  by (simp_all add: example_station_def)

lemma calm_process_station:
  "\<exists>w'. process_station (Suc fuel) calm_env ''2'' example_station w
          = Some (Inl (ReferenceError ''getRegion is not defined''), w') \<and>
        staging w' = filter (\<lambda>r. \<not> in_partition ''2'' example_station r) (staging w) @
          [\<lparr>station_id = ''20'', station_name = ''Taipei'', region_id = ''2'', plate_type = ''g'',
            window_id = ''01'', plate_no = ''ABC-1234'', price = Num 50000, row_status = ''AVAILABLE''\<rparr>] \<and>
        production w' = production w \<and>
        events w' = events w @
          [Station_begin ''20'' ''2'', Goto, Solve (Some ''AB12''), Submit ''AB12'',
           Insert [\<lparr>station_id = ''20'', station_name = ''Taipei'', region_id = ''2'',
                    plate_type = ''g'', window_id = ''01'', plate_no = ''ABC-1234'',
                    price = Num 50000, row_status = ''AVAILABLE''\<rparr>] None] \<and>
        stats w' = (stats w)\<lparr>captchaAttempts := captchaAttempts (stats w) + 1,
                              captchaSuccess := captchaSuccess (stats w) + 1,
                              totalPlates := totalPlates (stats w) + 1,
                              stationsSuccess := stationsSuccess (stats w) + 1\<rparr> \<and>
        tick w' = tick w + 6"
  by (simp add: process_station_def Let_def calm_process_type calm_env_simps getRegion_def
      example_station_fields calm_solveCaptcha calm_rows emit_def next_tick_def
      del: process_type_def)

theorem partition_isolation_witness:
  "\<exists>r w'. process_station 1 calm_env ''2'' example_station (empty_world\<lparr>staging := old_rows\<rparr>)
            = Some (r, w') \<and>
          inserted (new_events (empty_world\<lparr>staging := old_rows\<rparr>) w') =
            [\<lparr>station_id = ''20'', station_name = ''Taipei'', region_id = ''2'', plate_type = ''g'',
              window_id = ''01'', plate_no = ''ABC-1234'', price = Num 50000, row_status = ''AVAILABLE''\<rparr>] \<and>
          staging w' =
            [\<lparr>station_id = ''21'', station_name = ''Shilin'', region_id = ''2'', plate_type = ''g'',
              window_id = ''01'', plate_no = ''OLD-0002'', price = Num 2000, row_status = ''AVAILABLE''\<rparr>,
             \<lparr>station_id = ''20'', station_name = ''Elsewhere'', region_id = ''3'', plate_type = ''h'',
              window_id = ''01'', plate_no = ''OLD-0003'', price = Num 3000, row_status = ''AVAILABLE''\<rparr>,
             \<lparr>station_id = ''20'', station_name = ''Taipei'', region_id = ''2'', plate_type = ''g'',
              window_id = ''01'', plate_no = ''ABC-1234'', price = Num 50000, row_status = ''AVAILABLE''\<rparr>] \<and>
          filter (\<lambda>r. \<not> in_partition ''2'' example_station r) (staging w') =
          filter (\<lambda>r. \<not> in_partition ''2'' example_station r) old_rows"
proof -
  let ?w = "empty_world\<lparr>staging := old_rows\<rparr>"
  let ?new = "\<lparr>station_id = ''20'', station_name = ''Taipei'', region_id = ''2'', plate_type = ''g'',
            window_id = ''01'', plate_no = ''ABC-1234'', price = Num 50000, row_status = ''AVAILABLE''\<rparr>"
  from calm_process_station[of 0 ?w] obtain w' where
    p: "process_station 1 calm_env ''2'' example_station ?w
          = Some (Inl (ReferenceError ''getRegion is not defined''), w')"
    and e: "events w' = events ?w @
          [Station_begin ''20'' ''2'', Goto, Solve (Some ''AB12''), Submit ''AB12'',
           Insert [?new] None]"
    by auto
  note t = partition_isolation[OF p]
  have i: "inserted (new_events ?w w') = [?new]" using e by (simp add: new_events_def)
  have f: "filter (\<lambda>r. \<not> in_partition ''2'' example_station r) (staging w') =
           filter (\<lambda>r. \<not> in_partition ''2'' example_station r) old_rows"
    using t by (simp add: calm_env_simps)
  have "staging w' = filter (\<lambda>r. \<not> in_partition ''2'' example_station r) old_rows @ [?new]"
    using t i by (simp add: calm_env_simps)
  then have "staging w' =
            [\<lparr>station_id = ''21'', station_name = ''Shilin'', region_id = ''2'', plate_type = ''g'',
              window_id = ''01'', plate_no = ''OLD-0002'', price = Num 2000, row_status = ''AVAILABLE''\<rparr>,
             \<lparr>station_id = ''20'', station_name = ''Elsewhere'', region_id = ''3'', plate_type = ''h'',
              window_id = ''01'', plate_no = ''OLD-0003'', price = Num 3000, row_status = ''AVAILABLE''\<rparr>,
             ?new]"
    by (simp add: old_rows_def in_partition_def example_station_fields)
  then show ?thesis using p i f by blast
qed

subsection \<open>The end of processStation and the run\<close>

lemma paginate_terminates:
  "\<exists>j. k \<le> j \<and> j < k + fuel \<and> page_stops (listing env q j) \<Longrightarrow>
     paginate fuel env q k c w \<noteq> None"
proof (induction fuel arbitrary: k c w)
  case 0
  then show ?case by auto
next
  case (Suc fuel)
  then obtain j where j: "k \<le> j" "j < k + Suc fuel" "page_stops (listing env q j)" by blast
  show ?case
  proof (cases "listing env q k")
    case (Inl m)
    then show ?thesis by simp
  next
    case (Inr pg)
    show ?thesis
    proof (cases "no_data_text pg \<or> \<not> (status_next_page pg \<or> next_id pg)")
      case True
      then show ?thesis using Inr by (auto simp: parsePageInfo_def Let_def)
    next
      case False
      then have "\<not> page_stops (listing env q k)" using Inr by (simp add: page_stops_def)
      then have "j \<noteq> k" using j(3) by auto
      then have "\<exists>j. k + 1 \<le> j \<and> j < (k + 1) + fuel \<and> page_stops (listing env q j)"
        using j by (intro exI[of _ j]) auto
      from Suc.IH[OF this] show ?thesis using Inr False by (auto simp: parsePageInfo_def Let_def)
    qed
  qed
qed

lemma process_type_terminates:
  assumes "listing_ends env fuel"
  shows "process_type fuel env deptId st pType locals w \<noteq> None"
proof -
  have p: "paginate fuel env q 0 c w \<noteq> None" for q c w
  proof -
    from assms obtain k where "k < fuel" "page_stops (listing env q k)"
      by (auto simp: listing_ends_def)
    then have "\<exists>j. 0 \<le> j \<and> j < 0 + fuel \<and> page_stops (listing env q j)" by auto
    then show ?thesis by (rule paginate_terminates)
  qed
  obtain platesFound retries st_status where l: "locals = (platesFound, retries, st_status)"
    by (cases locals) auto
  obtain nr w1 where n: "navigate env 0 w = (nr, w1)" by (cases "navigate env 0 w") auto
  show ?thesis
  proof (cases nr)
    case (Inl e)
    then show ?thesis using l n by (simp add: process_type_def)
  next
    case (Inr u)
    show ?thesis
    proof (cases "form env (tick w1)")
      case (Form_fault m)
      then show ?thesis using l n Inr by (simp add: process_type_def Let_def)
    next
      case Type_absent
      then show ?thesis using l n Inr by (simp add: process_type_def Let_def)
    next
      case Type_selected
      obtain qr attempts retries' w3 where
        q: "query_loop env 0 retries (next_tick w1) = (qr, attempts, retries', w3)"
        by (cases "query_loop env 0 retries (next_tick w1)") auto
      obtain pr w4 where pg: "paginate fuel env (tick w3) 0 [] w3 = Some (pr, w4)"
        using p[of "tick w3" "[]" w3] by auto
      show ?thesis
        using l n Inr Type_selected q pg
        by (auto simp: process_type_def Let_def split: sum.splits prod.splits)
    qed
  qed
qed

lemma process_types_terminates:
  "listing_ends env fuel \<Longrightarrow> process_types fuel env deptId st pTypes locals w \<noteq> None"
proof (induction pTypes arbitrary: locals w)
  case Nil
  then show ?case by simp
next
  case (Cons pType rest)
  obtain r1 w1 where p: "process_type fuel env deptId st pType locals w = Some (r1, w1)"
    using process_type_terminates[OF Cons.prems, of deptId st pType locals w] by auto
  show ?case
  proof (cases r1)
    case (Inl e)
    then show ?thesis using p by simp
  next
    case (Inr locals')
    then show ?thesis using p Cons.IH[OF Cons.prems, of locals' w1] by simp
  qed
qed

text \<open>What \<open>processStation\<close> does after the loop over the plate types.\<close>

lemma process_station_unfold:
  "process_station fuel env deptId st w =
     (case process_types fuel env deptId st ([''g''] @ (if \<not> no_rental st then [''h''] else []))
             (0, 0, ''SUCCESS'')
             (next_tick
                (case db_error env (tick w) of
                   Some m \<Rightarrow> emit (Station_begin (st_id st) deptId) w
                 | None \<Rightarrow> (emit (Station_begin (st_id st) deptId) w)
                     \<lparr>staging := filter (\<lambda>r. \<not> in_partition deptId st r) (staging w)\<rparr>)) of
        None \<Rightarrow> None
      | Some (Inl e, w2) \<Rightarrow> Some (Inl e, w2)
      | Some (Inr (platesFound, retries, st_status), w2) \<Rightarrow>
          Some (Inl (ReferenceError ''getRegion is not defined''),
                if st_status \<noteq> ''FAILED''
                then w2\<lparr>stats := (stats w2)\<lparr>stationsSuccess := stationsSuccess (stats w2) + 1\<rparr>\<rparr>
                else w2))"
  by (simp add: process_station_def Let_def getRegion_def emit_def
      split: option.splits sum.splits prod.splits)

lemma process_station_terminates:
  assumes "listing_ends env fuel"
  shows "process_station fuel env deptId st w \<noteq> None"
proof -
  let ?types = "[''g''] @ (if \<not> no_rental st then [''h''] else [])"
  let ?w1 = "next_tick
                (case db_error env (tick w) of
                   Some m \<Rightarrow> emit (Station_begin (st_id st) deptId) w
                 | None \<Rightarrow> (emit (Station_begin (st_id st) deptId) w)
                     \<lparr>staging := filter (\<lambda>r. \<not> in_partition deptId st r) (staging w)\<rparr>)"
  obtain r2 w2 where "process_types fuel env deptId st ?types (0, 0, ''SUCCESS'') ?w1 = Some (r2, w2)"
    using process_types_terminates[OF assms, of deptId st ?types "(0, 0, ''SUCCESS'')" ?w1] by auto
  then show ?thesis
    by (simp only: process_station_unfold) (simp split: sum.splits prod.splits)
qed

lemma process_station_throws:
  "process_station fuel env deptId st w = Some (r, w') \<Longrightarrow> \<exists>e. r = Inl e"
  by (simp only: process_station_unfold) (auto split: option.splits sum.splits prod.splits)

lemma query_loop_no_throw:
  assumes "\<forall>t m. submission env t \<noteq> Type_fault m \<and> submission env t \<noteq> Submit_fault m"
  shows "\<exists>b. fst (query_loop env a r w) = Inr b"
proof (induction "10 - a" arbitrary: a r w)
  case 0
  then show ?case by (auto simp: query_loop_done)
next
  case (Suc n)
  then have a: "a < 10" by simp
  let ?r1 = "if a + 1 > 1 then r + 1 else r"
  have ih: "\<exists>b. fst (query_loop env (a + 1) ?r1 w2) = Inr b" for w2
    using Suc.hyps(1)[of "a + 1"] Suc.hyps(2) by simp
  obtain code k w1 where inner: "solve_loop env (a + 1) 0 w = (code, k, w1)"
    by (cases "solve_loop env (a + 1) 0 w") auto
  show ?case
  proof (cases code)
    case None
    then show ?thesis using query_loop_no_code[OF a, of env w k w1 r] inner ih[of w1] by simp
  next
    case (Some c)
    then have in': "solve_loop env (a + 1) 0 w = (Some c, k, w1)" using inner by simp
    show ?thesis
    proof (cases "submission env (tick w1)")
      case (Type_fault m)
      then show ?thesis using assms by simp
    next
      case (Submit_fault m)
      then show ?thesis using assms by simp
    next
      case (Submitted al rd)
      show ?thesis
      proof (cases "rd \<and> \<not> truthy al")
        case True
        then show ?thesis using query_loop_accepted[OF a in' Submitted, of r] by auto
      next
        case False
        then show ?thesis
          using query_loop_rejected[OF a in' Submitted, of r]
            ih[of "emit (Submit c) (next_tick w1)"] by simp
      qed
    qed
  qed
qed

lemma paginate_no_throw:
  assumes "\<forall>q k m. listing env q k \<noteq> Inl m"
  shows "paginate fuel env q k c w = Some (r, w') \<Longrightarrow> \<exists>c'. r = Inr c'"
proof (induction fuel arbitrary: k c w)
  case 0
  then show ?case by simp
next
  case (Suc fuel)
  obtain pg where pg: "listing env q k = Inr pg"
    using assms by (cases "listing env q k") auto
  show ?case
  proof (cases "\<not> info_noData (parsePageInfo pg) \<and>
                (info_current (parsePageInfo pg) < info_total (parsePageInfo pg)
                 \<or> info_hasNextButton (parsePageInfo pg)) \<and>
                (status_next_page pg \<or> next_id pg)")
    case True
    then have "paginate fuel env q (k + 1)
                 (if length (scraped (cells pg)) > 0 then c @ scraped (cells pg) else c)
                 (emit Click_next w) = Some (r, w')"
      using Suc.prems pg by (simp add: Let_def)
    then show ?thesis by (rule Suc.IH)
  next
    case False
    then show ?thesis using Suc.prems pg by (auto simp: Let_def split: if_splits)
  qed
qed

lemma process_type_no_throw:
  assumes "faultless env" and "process_type fuel env deptId st pType locals w = Some (r, w')"
  shows "\<exists>locals'. r = Inr locals'"
proof -
  from assms(1) have f: "\<forall>t. goto_error env t = None" "\<forall>t m. form env t \<noteq> Form_fault m"
    "\<forall>t m. submission env t \<noteq> Type_fault m \<and> submission env t \<noteq> Submit_fault m"
    "\<forall>q k m. listing env q k \<noteq> Inl m"
    by (simp_all add: faultless_def)
  obtain platesFound retries st_status where l: "locals = (platesFound, retries, st_status)"
    by (cases locals) auto
  have n: "navigate env 0 w = (Inr (), emit Goto (next_tick w))"
    using f(1) by (simp add: navigate_ok)
  let ?w1 = "emit Goto (next_tick w)"
  show ?thesis
  proof (cases "form env (tick ?w1)")
    case (Form_fault m)
    then show ?thesis using f(2) by simp
  next
    case Type_absent
    then show ?thesis using assms(2) l n by (auto simp: process_type_def Let_def)
  next
    case Type_selected
    obtain qr attempts retries' w3 where
      q: "query_loop env 0 retries (next_tick ?w1) = (qr, attempts, retries', w3)"
      by (cases "query_loop env 0 retries (next_tick ?w1)") auto
    obtain b where b: "qr = Inr b"
      using query_loop_no_throw[OF f(3), of 0 retries "next_tick ?w1"] q by auto
    show ?thesis
    proof (cases b)
      case False
      then show ?thesis
        using assms(2) l n Type_selected q b by (auto simp: process_type_def Let_def)
    next
      case True
      obtain pr w4 where p: "paginate fuel env (tick w3) 0 [] w3 = Some (pr, w4)"
        using assms(2) l n Type_selected q b True
        by (cases "paginate fuel env (tick w3) 0 [] w3") (auto simp: process_type_def Let_def)
      obtain c' where "pr = Inr c'" using paginate_no_throw[OF f(4) p] by blast
      then show ?thesis
        using assms(2) l n Type_selected q b True p
        by (auto simp: process_type_def Let_def split: prod.splits)
    qed
  qed
qed

lemma process_types_no_throw:
  "faultless env \<Longrightarrow> process_types fuel env deptId st pTypes locals w = Some (r, w') \<Longrightarrow>
     \<exists>locals'. r = Inr locals'"
proof (induction pTypes arbitrary: locals w)
  case Nil
  then have "r = Inr locals" by simp
  then show ?case by (rule exI)
next
  case (Cons pType rest)
  obtain r1 w1 where p: "process_type fuel env deptId st pType locals w = Some (r1, w1)"
    using Cons.prems(2) by (cases "process_type fuel env deptId st pType locals w") auto
  obtain l1 where "r1 = Inr l1" using process_type_no_throw[OF Cons.prems(1) p] by blast
  then have "process_types fuel env deptId st rest l1 w1 = Some (r, w')"
    using Cons.prems(2) p by simp
  then show ?case using Cons.IH[OF Cons.prems(1)] by blast
qed

lemma process_station_reference_error:
  assumes "faultless env" and "process_station fuel env deptId st w = Some (r, w')"
  shows "r = Inl (ReferenceError ''getRegion is not defined'')"
proof -
  let ?types = "[''g''] @ (if \<not> no_rental st then [''h''] else [])"
  let ?w1 = "next_tick
                (case db_error env (tick w) of
                   Some m \<Rightarrow> emit (Station_begin (st_id st) deptId) w
                 | None \<Rightarrow> (emit (Station_begin (st_id st) deptId) w)
                     \<lparr>staging := filter (\<lambda>r. \<not> in_partition deptId st r) (staging w)\<rparr>)"
  obtain r2 w2 where p: "process_types fuel env deptId st ?types (0, 0, ''SUCCESS'') ?w1 = Some (r2, w2)"
    using assms(2)
    by (cases "process_types fuel env deptId st ?types (0, 0, ''SUCCESS'') ?w1")
       (auto simp only: process_station_unfold option.case)
  obtain l2 where "r2 = Inr l2" using process_types_no_throw[OF assms(1) p] by blast
  then show ?thesis
    using assms(2) p by (simp only: process_station_unfold) (auto split: prod.splits)
qed

text \<open>The loops over stations and departments stop with the first station.\<close>

lemma run_stations_first:
  "run_stations fuel env deptId (st # rest) w = process_station fuel env deptId st w"
proof (cases "process_station fuel env deptId st w")
  case None
  then show ?thesis by simp
next
  case (Some a)
  obtain r w1 where a: "a = (r, w1)" by (cases a) auto
  obtain e where "r = Inl e" using process_station_throws Some a by blast
  then show ?thesis using Some a by simp
qed

lemma run_depts_first:
  "run_depts fuel env ((deptId, st # sts) # rest) w = process_station fuel env deptId st w"
proof (cases "process_station fuel env deptId st w")
  case None
  then show ?thesis by (simp add: run_stations_first del: run_stations.simps)
next
  case (Some a)
  obtain r w1 where a: "a = (r, w1)" by (cases a) auto
  obtain e where "r = Inl e" using process_station_throws Some a by blast
  then show ?thesis using Some a by (simp add: run_stations_first del: run_stations.simps)
qed

lemma Map_set_subset: "set (Map_set k v m) \<subseteq> insert (k, v) (set m)"
  by (induction m) (auto split: if_splits)

lemma loadStationData_stations:
  assumes "loadStationData su = Inr target"
  shows "\<forall>kv \<in> set target. snd kv \<noteq> []"
proof -
  let ?step = "\<lambda>target d.
     (let stations = filter (\<lambda>s. \<not> truthy (TARGET_SHARD su) \<or> st_shard s = TARGET_SHARD su)
                       (dept_stations d)
      in if length stations > 0
         then (if dept_id d = ''__proto__'' then target
               else Map_set (dept_id d) stations target)
         else target)"
  have inv: "\<forall>kv \<in> set acc. snd kv \<noteq> [] \<Longrightarrow> \<forall>kv \<in> set (foldl ?step acc ds). snd kv \<noteq> []"
    for acc ds
  proof (induction ds arbitrary: acc)
    case Nil
    then show ?case by simp
  next
    case (Cons d ds)
    have "\<forall>kv \<in> set (?step acc d). snd kv \<noteq> []"
    proof
      fix kv assume kv: "kv \<in> set (?step acc d)"
      let ?sts = "filter (\<lambda>s. \<not> truthy (TARGET_SHARD su) \<or> st_shard s = TARGET_SHARD su)
                       (dept_stations d)"
      show "snd kv \<noteq> []"
      proof (cases "length ?sts > 0")
        case True
        then have "kv \<in> insert (dept_id d, ?sts) (set acc)"
          using kv Map_set_subset[of "dept_id d" ?sts acc]
          by (auto simp: Let_def split: if_splits)
        then show ?thesis using True Cons.prems by auto
      next
        case False
        then have "kv \<in> set acc" using kv by (simp add: Let_def)
        then show ?thesis using Cons.prems by blast
      qed
    qed
    then show ?case using Cons.IH by simp
  qed
  obtain ds where "roster su = Load_ok ds" "target = foldl ?step [] ds"
    using assms by (auto simp: loadStationData_def split: load_outcome.splits)
  then show ?thesis using inv[of "[]" ds] by simp
qed

lemma Object_entries_set: "set (Object_entries obj) = set obj"
  by (auto simp: Object_entries_def)

lemma Object_entries_first:
  assumes "obj \<noteq> []" and "\<forall>kv \<in> set obj. snd kv \<noteq> []"
  shows "\<exists>deptId st sts rest. Object_entries obj = (deptId, st # sts) # rest"
proof -
  have "set (Object_entries obj) \<noteq> {}" using assms(1) by (simp add: Object_entries_set)
  then obtain kv rest where o: "Object_entries obj = kv # rest"
    by (cases "Object_entries obj") auto
  then have "kv \<in> set obj" using Object_entries_set[of obj] by auto
  then have "snd kv \<noteq> []" using assms(2) by blast
  then obtain st sts where "snd kv = st # sts" by (cases "snd kv") auto
  then have "kv = (fst kv, st # sts)" by (cases kv) auto
  then show ?thesis using o by metis
qed

lemma main_try_unfold:
  "setup_error su = None \<Longrightarrow>
   main_try fuel env su target w =
     (case run_depts fuel env (Object_entries target) (after_setup env su w) of
        None \<Rightarrow> None
      | Some (Inl e, w3) \<Rightarrow> Some (Inl e, w3)
      | Some (Inr u, w3) \<Rightarrow>
          (let w4 = (if TARGET_SHARD su = None then performSwap env w3 else w3);
               count = (case db_error env (tick w4) of
                          Some m \<Rightarrow> None
                        | None \<Rightarrow> Some (length (staging w4)));
               w5 = next_tick w4
           in if count = Some 0 \<and> \<not> truthy (TARGET_SHARD su)
              then Some (Inr (),
                     reportStatus env ''WARNING'' (Some ''Sync completed but 0 plates found.'')
                       (syncKey su) (w5\<lparr>stats := (stats w5)\<lparr>status := ''WARNING''\<rparr>\<rparr>))
              else Some (Inr (),
                     reportStatus env ''COMPLETED'' None (syncKey su)
                       (w5\<lparr>stats := (stats w5)\<lparr>status := ''COMPLETED''\<rparr>\<rparr>))))"
  by (simp add: main_try_def after_setup_def Let_def)

text \<open>The handler of line 730, followed by \<open>stats.save()\<close>.\<close>

lemma caught_fields:
  "status (stats (save env (reportStatus env ''FAILED'' (Some (message e)) key
      (addError ''GLOBAL'' (message e) (w\<lparr>stats := (stats w)\<lparr>status := ''FAILED''\<rparr>\<rparr>))))) = ''FAILED''"
  "errors (stats (save env (reportStatus env ''FAILED'' (Some (message e)) key
      (addError ''GLOBAL'' (message e) (w\<lparr>stats := (stats w)\<lparr>status := ''FAILED''\<rparr>\<rparr>)))))
     = errors (stats w) @ [''GLOBAL: '' @ message e]"
  "events (save env (reportStatus env ''FAILED'' (Some (message e)) key
      (addError ''GLOBAL'' (message e) (w\<lparr>stats := (stats w)\<lparr>status := ''FAILED''\<rparr>\<rparr>)))) = events w"
  "staging (save env (reportStatus env ''FAILED'' (Some (message e)) key
      (addError ''GLOBAL'' (message e) (w\<lparr>stats := (stats w)\<lparr>status := ''FAILED''\<rparr>\<rparr>)))) = staging w"
  "production (save env (reportStatus env ''FAILED'' (Some (message e)) key
      (addError ''GLOBAL'' (message e) (w\<lparr>stats := (stats w)\<lparr>status := ''FAILED''\<rparr>\<rparr>)))) = production w"
  by (simp_all add: save_def reportStatus_def addError_def next_tick_def split: option.splits)

text \<open>
  Claim C2. \<open>processStation\<close> never returns normally: whenever it ends, it ends with an
  exception, and when no page operation throws, the exception is the \<open>ReferenceError\<close> for
  \<open>getRegion\<close>. A run that gets past its set-up with at least one station therefore
  processes exactly the first station of the first department: the loops over
  departments and stations do what that one call of \<open>processStation\<close> does. The run ends
  with exit code 0 and status \<open>FAILED\<close>, the message of the exception recorded under
  \<open>GLOBAL\<close> and no event after those of the first station; it ends whenever that call
  ends, which it does when all listings are finite.
\<close>

theorem first_station_fails_the_run:
  assumes "env_vars_set su" and "loadStationData su = Inr target" and "target \<noteq> []"
    and "launch_error su = None" and "setup_error su = None"
  shows "\<exists>deptId st.
           (\<forall>w2. run_depts fuel env (Object_entries target) w2
                   = process_station fuel env deptId st w2) \<and>
           (\<forall>w2 r w3. process_station fuel env deptId st w2 = Some (r, w3) \<longrightarrow>
              (\<exists>e. r = Inl e) \<and>
              (faultless env \<longrightarrow> r = Inl (ReferenceError ''getRegion is not defined''))) \<and>
           (case main fuel env su w of
              None \<Rightarrow> process_station fuel env deptId st (after_setup env su w) = None
            | Some (oc, w') \<Rightarrow>
                oc = Exit 0 \<and> status (stats w') = ''FAILED'' \<and>
                (\<exists>e w3. process_station fuel env deptId st (after_setup env su w) = Some (Inl e, w3) \<and>
                        errors (stats w') = errors (stats w3) @ [''GLOBAL: '' @ message e] \<and>
                        events w' = events w3)) \<and>
           (listing_ends env fuel \<longrightarrow> main fuel env su w \<noteq> None)"
proof -
  obtain deptId st sts rest where o: "Object_entries target = (deptId, st # sts) # rest"
    using Object_entries_first[OF assms(3) loadStationData_stations[OF assms(2)]] by blast
  have rd: "run_depts fuel env (Object_entries target) w2 = process_station fuel env deptId st w2"
    for w2
    by (simp only: o run_depts_first)
  have th: "\<forall>w2 r w3. process_station fuel env deptId st w2 = Some (r, w3) \<longrightarrow>
              (\<exists>e. r = Inl e) \<and>
              (faultless env \<longrightarrow> r = Inl (ReferenceError ''getRegion is not defined''))"
    using process_station_throws process_station_reference_error by blast
  let ?ws = "after_setup env su w"
  have mt: "main_try fuel env su target w =
     (case process_station fuel env deptId st ?ws of
        None \<Rightarrow> None
      | Some (r, w3) \<Rightarrow> (case r of Inl e \<Rightarrow> Some (Inl e, w3) | Inr u \<Rightarrow> None))"
  proof (cases "process_station fuel env deptId st ?ws")
    case None
    then show ?thesis by (simp add: main_try_unfold[OF assms(5)] rd)
  next
    case (Some a)
    obtain r w3 where a: "a = (r, w3)" by (cases a) auto
    obtain e where "r = Inl e" using process_station_throws Some a by blast
    then show ?thesis using Some a by (simp add: main_try_unfold[OF assms(5)] rd)
  qed
  have m: "(case main fuel env su w of
              None \<Rightarrow> process_station fuel env deptId st ?ws = None
            | Some (oc, w') \<Rightarrow>
                oc = Exit 0 \<and> status (stats w') = ''FAILED'' \<and>
                (\<exists>e w3. process_station fuel env deptId st ?ws = Some (Inl e, w3) \<and>
                        errors (stats w') = errors (stats w3) @ [''GLOBAL: '' @ message e] \<and>
                        events w' = events w3))"
  proof (cases "process_station fuel env deptId st ?ws")
    case None
    then show ?thesis using assms(1,2,4) mt by (simp add: main_def)
  next
    case (Some a)
    obtain r w3 where a: "a = (r, w3)" by (cases a) auto
    obtain e where e: "r = Inl e" using process_station_throws Some a by blast
    have "main fuel env su w = Some (Exit 0,
       save env (reportStatus env ''FAILED'' (Some (message e)) (syncKey su)
         (addError ''GLOBAL'' (message e) (w3\<lparr>stats := (stats w3)\<lparr>status := ''FAILED''\<rparr>\<rparr>))))"
      using assms(1,2,4) mt Some a e by (simp add: main_def Let_def)
    then show ?thesis using Some a e by (simp add: caught_fields)
  qed
  have t: "listing_ends env fuel \<longrightarrow> main fuel env su w \<noteq> None"
  proof
    assume "listing_ends env fuel"
    then have "process_station fuel env deptId st ?ws \<noteq> None" by (rule process_station_terminates)
    then show "main fuel env su w \<noteq> None" using m by (auto split: option.splits)
  qed
  show ?thesis using rd th m t by blast
qed

lemma two_stations_load:
  "loadStationData two_stations =
     Inr [(''2'', [example_station,
                  \<lparr>st_id = ''21'', st_name = ''Shilin'', st_shard = None, no_rental = False\<rparr>])]"
  by (simp add: loadStationData_def two_stations_def truthy_def Let_def)

lemma two_stations_entries:
  "Object_entries [(''2'', [example_station,
                  \<lparr>st_id = ''21'', st_name = ''Shilin'', st_shard = None, no_rental = False\<rparr>])]
   = [(''2'', [example_station,
                  \<lparr>st_id = ''21'', st_name = ''Shilin'', st_shard = None, no_rental = False\<rparr>])]"
  by (simp add: Object_entries_def)

lemma calm_faultless: "faultless calm_env"
  by (simp add: faultless_def calm_env_simps)

lemma calm_listing_ends: "listing_ends calm_env 1"
  by (simp add: listing_ends_def page_stops_def calm_env_simps one_page_def)

lemma after_setup_two_stations:
  "events (after_setup calm_env two_stations empty_world) = []"
  "stats (after_setup calm_env two_stations empty_world) = new_SyncStats"
  by (simp_all add: after_setup_def reportStatus_def clearStaging_def Let_def calm_env_simps
      next_tick_def two_stations_def empty_world_def)

theorem first_station_fails_the_run_witness:
  "env_vars_set two_stations \<and>
   loadStationData two_stations =
     Inr [(''2'', [example_station,
                  \<lparr>st_id = ''21'', st_name = ''Shilin'', st_shard = None, no_rental = False\<rparr>])] \<and>
   launch_error two_stations = None \<and> setup_error two_stations = None \<and>
   faultless calm_env \<and> listing_ends calm_env 1 \<and>
   (\<exists>w'. main 1 calm_env two_stations empty_world = Some (Exit 0, w') \<and>
         status (stats w') = ''FAILED'' \<and>
         errors (stats w') = [''GLOBAL: getRegion is not defined''] \<and>
         events w' =
           [Station_begin ''20'' ''2'', Goto, Solve (Some ''AB12''), Submit ''AB12'',
            Insert [\<lparr>station_id = ''20'', station_name = ''Taipei'', region_id = ''2'',
                     plate_type = ''g'', window_id = ''01'', plate_no = ''ABC-1234'',
                     price = Num 50000, row_status = ''AVAILABLE''\<rparr>] None])"
proof -
  let ?target = "[(''2'', [example_station,
                  \<lparr>st_id = ''21'', st_name = ''Shilin'', st_shard = None, no_rental = False\<rparr>])]"
  let ?ws = "after_setup calm_env two_stations empty_world"
  have h: "env_vars_set two_stations" "?target \<noteq> []" "launch_error two_stations = None"
    "setup_error two_stations = None"
    by (simp_all add: two_stations_def)
  from first_station_fails_the_run[OF h(1) two_stations_load h(2,3,4), of 1 calm_env empty_world]
  obtain deptId st where
    rd: "\<forall>w2. run_depts 1 calm_env (Object_entries ?target) w2 = process_station 1 calm_env deptId st w2"
    and m: "case main 1 calm_env two_stations empty_world of
              None \<Rightarrow> process_station 1 calm_env deptId st ?ws = None
            | Some (oc, w') \<Rightarrow>
                oc = Exit 0 \<and> status (stats w') = ''FAILED'' \<and>
                (\<exists>e w3. process_station 1 calm_env deptId st ?ws = Some (Inl e, w3) \<and>
                        errors (stats w') = errors (stats w3) @ [''GLOBAL: '' @ message e] \<and>
                        events w' = events w3)"
    and t: "listing_ends calm_env 1 \<longrightarrow> main 1 calm_env two_stations empty_world \<noteq> None"
    by blast
  have same: "process_station 1 calm_env deptId st ?ws = process_station 1 calm_env ''2'' example_station ?ws"
    using rd[rule_format, of ?ws] by (simp only: two_stations_entries run_depts_first)
  from calm_process_station[of 0 ?ws] obtain w3 where
    p: "process_station 1 calm_env ''2'' example_station ?ws
          = Some (Inl (ReferenceError ''getRegion is not defined''), w3)"
    and e3: "events w3 = events ?ws @
           [Station_begin ''20'' ''2'', Goto, Solve (Some ''AB12''), Submit ''AB12'',
            Insert [\<lparr>station_id = ''20'', station_name = ''Taipei'', region_id = ''2'',
                     plate_type = ''g'', window_id = ''01'', plate_no = ''ABC-1234'',
                     price = Num 50000, row_status = ''AVAILABLE''\<rparr>] None]"
    and s3: "stats w3 = (stats ?ws)\<lparr>captchaAttempts := captchaAttempts (stats ?ws) + 1,
                              captchaSuccess := captchaSuccess (stats ?ws) + 1,
                              totalPlates := totalPlates (stats ?ws) + 1,
                              stationsSuccess := stationsSuccess (stats ?ws) + 1\<rparr>"
    by auto
  obtain oc w' where mm: "main 1 calm_env two_stations empty_world = Some (oc, w')"
    using t calm_listing_ends by (cases "main 1 calm_env two_stations empty_world") auto
  have "oc = Exit 0 \<and> status (stats w') = ''FAILED'' \<and>
        errors (stats w') = [''GLOBAL: getRegion is not defined''] \<and>
        events w' =
           [Station_begin ''20'' ''2'', Goto, Solve (Some ''AB12''), Submit ''AB12'',
            Insert [\<lparr>station_id = ''20'', station_name = ''Taipei'', region_id = ''2'',
                     plate_type = ''g'', window_id = ''01'', plate_no = ''ABC-1234'',
                     price = Num 50000, row_status = ''AVAILABLE''\<rparr>] None]"
    using m mm same p e3 s3 by (auto simp: after_setup_two_stations new_SyncStats_def)
  then show ?thesis
    using mm h two_stations_load calm_faultless calm_listing_ends by auto
qed

subsection \<open>Exit codes\<close>

lemma main_try_completed:
  "main_try fuel env su target w = Some (Inr u, w1) \<Longrightarrow>
     status (stats w1) = ''COMPLETED'' \<or> status (stats w1) = ''WARNING''"
  by (auto simp: main_try_def Let_def reportStatus_def next_tick_def
      split: option.splits sum.splits prod.splits if_splits)

text \<open>
  Claim C3, as amended. The worker exits with code 1 exactly when its initialization
  fails: a required environment variable is missing, or the station configuration cannot
  be loaded. When the launch of the browser throws, outside the \<open>try\<close>, the script ends
  in an unhandled rejection without a call of \<open>process.exit\<close>. Once the browser is
  launched the script exits with code 0 in every case in which the body of the \<open>try\<close>
  ends: on normal completion (status \<open>COMPLETED\<close> or \<open>WARNING\<close>), and also when the body
  throws, where the handler sets the status \<open>FAILED\<close> and records the message.
\<close>

theorem exit_codes:
  "(\<not> env_vars_set su \<or> (\<exists>e. loadStationData su = Inl e) \<longrightarrow>
      main fuel env su w = Some (Exit 1, w)) \<and>
   (\<forall>target. env_vars_set su \<and> loadStationData su = Inr target \<longrightarrow>
      (\<forall>m. launch_error su = Some m \<longrightarrow>
           main fuel env su w = Some (Unhandled_rejection (Error m), w)) \<and>
      (launch_error su = None \<longrightarrow>
         (main_try fuel env su target w = None \<longrightarrow> main fuel env su w = None) \<and>
         (\<forall>u w1. main_try fuel env su target w = Some (Inr u, w1) \<longrightarrow>
            main fuel env su w = Some (Exit 0, save env w1) \<and>
            (status (stats w1) = ''COMPLETED'' \<or> status (stats w1) = ''WARNING'')) \<and>
         (\<forall>e w1. main_try fuel env su target w = Some (Inl e, w1) \<longrightarrow>
            (\<exists>w'. main fuel env su w = Some (Exit 0, w') \<and> status (stats w') = ''FAILED'' \<and>
                  errors (stats w') = errors (stats w1) @ [''GLOBAL: '' @ message e]))))"
proof (intro conjI allI impI)
  assume "\<not> env_vars_set su \<or> (\<exists>e. loadStationData su = Inl e)"
  then show "main fuel env su w = Some (Exit 1, w)" by (auto simp: main_def)
next
  fix target m
  assume "env_vars_set su \<and> loadStationData su = Inr target" "launch_error su = Some m"
  then show "main fuel env su w = Some (Unhandled_rejection (Error m), w)"
    by (simp add: main_def)
next
  fix target
  assume "env_vars_set su \<and> loadStationData su = Inr target" "launch_error su = None"
    "main_try fuel env su target w = None"
  then show "main fuel env su w = None" by (simp add: main_def)
next
  fix target u w1
  assume "env_vars_set su \<and> loadStationData su = Inr target" "launch_error su = None"
    "main_try fuel env su target w = Some (Inr u, w1)"
  then show "main fuel env su w = Some (Exit 0, save env w1)" by (simp add: main_def)
next
  fix target u w1
  assume "main_try fuel env su target w = Some (Inr u, w1)"
  then show "status (stats w1) = ''COMPLETED'' \<or> status (stats w1) = ''WARNING''"
    by (rule main_try_completed)
next
  fix target e w1
  assume "env_vars_set su \<and> loadStationData su = Inr target" "launch_error su = None"
    "main_try fuel env su target w = Some (Inl e, w1)"
  then have "main fuel env su w = Some (Exit 0,
       save env (reportStatus env ''FAILED'' (Some (message e)) (syncKey su)
         (addError ''GLOBAL'' (message e) (w1\<lparr>stats := (stats w1)\<lparr>status := ''FAILED''\<rparr>\<rparr>))))"
    by (simp add: main_def Let_def)
  then show "\<exists>w'. main fuel env su w = Some (Exit 0, w') \<and> status (stats w') = ''FAILED'' \<and>
                  errors (stats w') = errors (stats w1) @ [''GLOBAL: '' @ message e]"
    by (simp add: caught_fields)
qed

lemma crashed_setup_load:
  "loadStationData crashed_setup =
     Inr [(''2'', [example_station,
                  \<lparr>st_id = ''21'', st_name = ''Shilin'', st_shard = None, no_rental = False\<rparr>])]"
  by (simp add: loadStationData_def crashed_setup_def two_stations_def truthy_def Let_def)

lemma empty_roster_load: "loadStationData empty_roster = Inr []"
  by (simp add: loadStationData_def empty_roster_def two_stations_def)

lemma startup_fields:
  "env_vars_set crashed_setup" "launch_error crashed_setup = None"
  "setup_error crashed_setup = Some ''Target closed''" "TARGET_SHARD crashed_setup = None"
  "env_vars_set empty_roster" "launch_error empty_roster = None"
  "setup_error empty_roster = None" "TARGET_SHARD empty_roster = None"
  "\<not> env_vars_set no_env_vars"
  by (simp_all add: crashed_setup_def empty_roster_def no_env_vars_def two_stations_def)

lemma syncKey_full: "TARGET_SHARD su = None \<Longrightarrow> syncKey su = ''plates_full_sync''"
  by (simp add: syncKey_def truthy_def)

lemma crashed_setup_try:
  "main_try fuel env crashed_setup target w = Some (Inl (Error ''Target closed''), w)"
  by (simp add: main_try_def startup_fields)

lemma empty_roster_try:
  "main_try fuel calm_env empty_roster [] (empty_world\<lparr>production := old_rows\<rparr>) =
     Some (Inr (),
       \<lparr>tick = 5, staging = [], production = [],
        sync_metadata = [(''plates_full_sync'', ''WARNING'', Some ''Sync completed but 0 plates found.'')],
        sync_logs = None,
        stats = \<lparr>status = ''WARNING'', totalPlates = 0, stationsSuccess = 0, stationsFailed = 0,
                 captchaAttempts = 0, captchaSuccess = 0, errors = []\<rparr>,
        events = [Swap]\<rparr>)"
  by (simp add: main_try_def startup_fields syncKey_full Object_entries_def reportStatus_def
      clearStaging_def performSwap_def swap_plates_data_def calm_env_simps Let_def truthy_def
      emit_def next_tick_def empty_world_def new_SyncStats_def)

text \<open>
  The claim as stated fails when the body of the \<open>try\<close> throws: the page set-up throws
  \<open>Target closed\<close>, the handler records the failure, and the script exits with code 0.
\<close>

theorem exit_code_counterexample:
  "main 0 calm_env crashed_setup empty_world =
     Some (Exit 0,
       \<lparr>tick = 2, staging = [], production = [],
        sync_metadata = [(''plates_full_sync'', ''FAILED'', Some ''Target closed'')],
        sync_logs = Some \<lparr>status = ''FAILED'', totalPlates = 0, stationsSuccess = 0,
                          stationsFailed = 0, captchaAttempts = 0, captchaSuccess = 0,
                          errors = [''GLOBAL: Target closed'']\<rparr>,
        stats = \<lparr>status = ''FAILED'', totalPlates = 0, stationsSuccess = 0,
                 stationsFailed = 0, captchaAttempts = 0, captchaSuccess = 0,
                 errors = [''GLOBAL: Target closed'']\<rparr>,
        events = []\<rparr>)"
  by (simp add: main_def crashed_setup_load startup_fields crashed_setup_try syncKey_full Let_def
      reportStatus_def addError_def save_def calm_env_simps next_tick_def empty_world_def
      new_SyncStats_def)

theorem exit_codes_witness:
  "\<not> env_vars_set no_env_vars \<and>
   main 0 calm_env no_env_vars empty_world = Some (Exit 1, empty_world) \<and>
   env_vars_set crashed_setup \<and> launch_error crashed_setup = None \<and>
   main_try 0 calm_env crashed_setup
     [(''2'', [example_station,
               \<lparr>st_id = ''21'', st_name = ''Shilin'', st_shard = None, no_rental = False\<rparr>])]
     empty_world = Some (Inl (Error ''Target closed''), empty_world) \<and>
   (\<exists>w'. main 0 calm_env crashed_setup empty_world = Some (Exit 0, w') \<and>
         status (stats w') = ''FAILED'' \<and> errors (stats w') = [''GLOBAL: Target closed'']) \<and>
   env_vars_set empty_roster \<and> loadStationData empty_roster = Inr [] \<and>
   (\<exists>w1. main_try 0 calm_env empty_roster [] (empty_world\<lparr>production := old_rows\<rparr>)
            = Some (Inr (), w1) \<and> status (stats w1) = ''WARNING'' \<and>
          main 0 calm_env empty_roster (empty_world\<lparr>production := old_rows\<rparr>)
            = Some (Exit 0, save calm_env w1))"
proof -
  note a = exit_codes[of no_env_vars 0 calm_env empty_world]
  note b = exit_codes[of crashed_setup 0 calm_env empty_world]
  note c = exit_codes[of empty_roster 0 calm_env "empty_world\<lparr>production := old_rows\<rparr>"]
  have 1: "main 0 calm_env no_env_vars empty_world = Some (Exit 1, empty_world)"
    using a startup_fields(9) by blast
  have 2: "\<exists>w'. main 0 calm_env crashed_setup empty_world = Some (Exit 0, w') \<and>
         status (stats w') = ''FAILED'' \<and>
         errors (stats w') = errors (stats empty_world) @ [''GLOBAL: '' @ message (Error ''Target closed'')]"
    using b startup_fields(1,2) crashed_setup_load crashed_setup_try by blast
  have 3: "main 0 calm_env empty_roster (empty_world\<lparr>production := old_rows\<rparr>)
            = Some (Exit 0, save calm_env
       \<lparr>tick = 5, staging = [], production = [],
        sync_metadata = [(''plates_full_sync'', ''WARNING'', Some ''Sync completed but 0 plates found.'')],
        sync_logs = None,
        stats = \<lparr>status = ''WARNING'', totalPlates = 0, stationsSuccess = 0, stationsFailed = 0,
                 captchaAttempts = 0, captchaSuccess = 0, errors = []\<rparr>,
        events = [Swap]\<rparr>)"
    using c startup_fields(5,6) empty_roster_load empty_roster_try by blast
  have e: "errors (stats empty_world) = []" by (simp add: empty_world_def new_SyncStats_def)
  show ?thesis
    using 1 2 3 startup_fields empty_roster_load crashed_setup_try empty_roster_try e by auto
qed

subsection \<open>The swap\<close>

text \<open>
  The finalizer checks the staging count before it swaps: with an empty staging table it
  returns without calling the procedure and leaves production as it is; with rows in
  staging it calls the procedure once.
\<close>

lemma finalizer_guard:
  assumes "db_error env (tick w) = None"
  shows "staging w = [] \<Longrightarrow>
           trigger_swap_run True env w = (Returned, next_tick w)"
    and "staging w \<noteq> [] \<Longrightarrow>
           events (snd (trigger_swap_run True env w)) = events w @ [Swap] \<and>
           (db_error env (tick w + 1) = None \<longrightarrow>
              fst (trigger_swap_run True env w) = Returned \<and>
              production (snd (trigger_swap_run True env w)) = staging w)"
  using assms
  by (auto simp: trigger_swap_run_def Let_def next_tick_def emit_def swap_plates_data_def
      split: option.splits)

text \<open>
  Claim C1 on the worker's own publish step (lines 713-719). In full mode with an empty
  roster the staging table is empty when the publish step is reached; the swap procedure
  is called all the same, and production, which held three rows, is empty afterwards. The
  count is only read after the swap, for the status \<open>WARNING\<close>.
\<close>

theorem full_run_swaps_empty_staging:
  "main 0 calm_env empty_roster (empty_world\<lparr>production := old_rows\<rparr>) =
     Some (Exit 0,
       \<lparr>tick = 6, staging = [], production = [],
        sync_metadata = [(''plates_full_sync'', ''WARNING'', Some ''Sync completed but 0 plates found.'')],
        sync_logs = Some \<lparr>status = ''WARNING'', totalPlates = 0, stationsSuccess = 0,
                          stationsFailed = 0, captchaAttempts = 0, captchaSuccess = 0,
                          errors = []\<rparr>,
        stats = \<lparr>status = ''WARNING'', totalPlates = 0, stationsSuccess = 0, stationsFailed = 0,
                 captchaAttempts = 0, captchaSuccess = 0, errors = []\<rparr>,
        events = [Swap]\<rparr>) \<and>
   trigger_swap_run True calm_env (empty_world\<lparr>production := old_rows\<rparr>) =
     (Returned, empty_world\<lparr>production := old_rows, tick := 1\<rparr>)"
proof (rule conjI)
  show "trigger_swap_run True calm_env (empty_world\<lparr>production := old_rows\<rparr>) =
     (Returned, empty_world\<lparr>production := old_rows, tick := 1\<rparr>)"
    by (simp add: trigger_swap_run_def calm_env_simps next_tick_def empty_world_def Let_def)
qed (simp add: main_def startup_fields empty_roster_load empty_roster_try Let_def save_def
      calm_env_simps next_tick_def)

end
